theory Spec2Isabelle
  imports Complex_Main
begin

section \<open>Python string primitives\<close>

text \<open>
  Python strings are modelled as Isabelle strings. An Isabelle character is one of the
  code points 0 to 255, so the model covers statements whose text lies in that range.
  On it the Unicode notions used by \<^verbatim>\<open>str\<close>, \<^verbatim>\<open>re\<close> and
  \<^verbatim>\<open>float\<close> are the following: the decimal digits are 0 to 9, the whitespace
  characters are the code points 9 to 13, 28 to 32, 133 and 160, and lower-casing maps
  A to Z and the code points 192 to 222 (215 apart) 32 places up.
\<close>

definition is_digit :: "char \<Rightarrow> bool" where
  "is_digit c = (c \<in> set ''0123456789'')"

definition is_space :: "char \<Rightarrow> bool" where
  "is_space c = ((of_char c :: nat) \<in> {9, 10, 11, 12, 13, 28, 29, 30, 31, 32, 133, 160})"

definition lower_char :: "char \<Rightarrow> char" where
  \<comment> \<open>in both ranges bit 5 is clear, so that adding 32 sets it\<close>
  "lower_char c =
     (let n = (of_char c :: nat)
      in if (65 \<le> n \<and> n \<le> 90) \<or> (192 \<le> n \<and> n \<le> 222 \<and> n \<noteq> 215)
         then (case c of Char b0 b1 b2 b3 b4 b5 b6 b7 \<Rightarrow> Char b0 b1 b2 b3 b4 True b6 b7)
         else c)"

definition lower :: "string \<Rightarrow> string" where
  \<comment> \<open>\<^verbatim>\<open>str.lower()\<close>\<close>
  "lower s = map lower_char s"

definition strip :: "string \<Rightarrow> string" where
  \<comment> \<open>\<^verbatim>\<open>str.strip()\<close>: leading and trailing whitespace removed\<close>
  "strip s = rev (dropWhile is_space (rev (dropWhile is_space s)))"

definition replace_char :: "char \<Rightarrow> string \<Rightarrow> string \<Rightarrow> string" where
  \<comment> \<open>\<^verbatim>\<open>s.replace(old, new)\<close> for a one-character \<^verbatim>\<open>old\<close>\<close>
  "replace_char old new s = concat (map (\<lambda>c. if c = old then new else [c]) s)"

section \<open>The fragment of Python's regular expressions used by the parser\<close>

text \<open>
  Every pattern of the parser is a sequence of single-character atoms, quantified
  single-character atoms and capturing groups that are not nested; none has an
  alternation. A pattern is therefore a list of items, a capturing group being marked
  by \<open>Open\<close> and \<open>Close\<close>. \<open>Rep a lo hi greedy\<close> is the atom \<open>a\<close> repeated
  \<open>lo\<close> to \<open>hi\<close> times (\<open>None\<close>: unbounded), the longest repetition tried first
  when greedy and the shortest first when lazy.
\<close>

datatype cls_item = CChar char | CDigit | CSpace

datatype atom = Lit char | Cls "cls_item list" | NCls "cls_item list"

datatype item = One atom | Rep atom nat "nat option" bool | Open | Close

fun cls_match :: "bool \<Rightarrow> cls_item \<Rightarrow> char \<Rightarrow> bool" where
  "cls_match ic (CChar x) c = (if ic then lower_char c = lower_char x else c = x)"
| "cls_match ic CDigit c = is_digit c"
| "cls_match ic CSpace c = is_space c"

fun am :: "bool \<Rightarrow> atom \<Rightarrow> char \<Rightarrow> bool" where
  \<comment> \<open>one atom against one character; \<open>ic\<close> is the flag \<^verbatim>\<open>re.IGNORECASE\<close>\<close>
  "am ic (Lit x) c = (if ic then lower_char c = lower_char x else c = x)"
| "am ic (Cls is) c = list_ex (\<lambda>i. cls_match ic i c) is"
| "am ic (NCls is) c = (\<not> list_ex (\<lambda>i. cls_match ic i c) is)"

definition rep_counts :: "nat \<Rightarrow> nat option \<Rightarrow> bool \<Rightarrow> nat \<Rightarrow> nat list" where
  \<comment> \<open>the repetition counts to try, in the order of trial, when \<open>run\<close> characters match\<close>
  "rep_counts lo hi greedy run =
     (let top = (case hi of None \<Rightarrow> run | Some h \<Rightarrow> min h run);
          ns = [lo ..< Suc top]
      in if greedy then rev ns else ns)"

fun first_some :: "'a option list \<Rightarrow> 'a option" where
  "first_some [] = None"
| "first_some (None # xs) = first_some xs"
| "first_some (Some x # xs) = Some x"

fun mt :: "bool \<Rightarrow> item list \<Rightarrow> string \<Rightarrow> nat \<Rightarrow> nat list option" where
  \<comment> \<open>the backtracking match of a pattern at the front of \<open>s\<close>, \<open>k\<close> characters into the
      attempt; the result lists the offsets at which the group marks were passed\<close>
  "mt ic [] s k = Some []"
| "mt ic (Open # r) s k = map_option ((#) k) (mt ic r s k)"
| "mt ic (Close # r) s k = map_option ((#) k) (mt ic r s k)"
| "mt ic (One a # r) s k =
     (case s of [] \<Rightarrow> None
      | c # cs \<Rightarrow> if am ic a c then mt ic r cs (Suc k) else None)"
| "mt ic (Rep a lo hi greedy # r) s k =
     first_some (map (\<lambda>n. mt ic r (drop n s) (k + n))
       (rep_counts lo hi greedy (length (takeWhile (am ic a) s))))"

fun groups_of :: "nat list \<Rightarrow> string \<Rightarrow> string list" where
  "groups_of (b # e # r) s = take (e - b) (drop b s) # groups_of r s"
| "groups_of _ s = []"

fun re_search :: "item list \<Rightarrow> string \<Rightarrow> bool \<Rightarrow> string list option" where
  \<comment> \<open>\<^verbatim>\<open>re.search(pattern, text, flags)\<close>: the match at the leftmost position that has
      one, as the list of its captured groups\<close>
  "re_search p [] ic = map_option (\<lambda>m. groups_of m []) (mt ic p [] 0)"
| "re_search p (c # cs) ic =
     (case mt ic p (c # cs) 0 of
        Some m \<Rightarrow> Some (groups_of m (c # cs))
      | None \<Rightarrow> re_search p cs ic)"

definition group :: "string list \<Rightarrow> nat \<Rightarrow> string" where
  \<comment> \<open>\<^verbatim>\<open>match.group(n)\<close> for \<open>n \<ge> 1\<close>; every match of a pattern of the parser has
      the groups that are read from it (lemmas \<open>card_group\<close>, \<open>billing_groups\<close>,
      \<open>due_groups\<close> and \<open>balance_group\<close>)\<close>
  "group m n = m ! (n - 1)"

definition re_sub1 :: "atom \<Rightarrow> string \<Rightarrow> string \<Rightarrow> string" where
  \<comment> \<open>\<^verbatim>\<open>re.sub(pattern, repl, s)\<close> for a pattern that is one atom, no flags\<close>
  "re_sub1 a repl s = concat (map (\<lambda>c. if am False a c then repl else [c]) s)"

definition lits :: "string \<Rightarrow> item list" where
  "lits s = map (\<lambda>c. One (Lit c)) s"

section \<open>Conversion of text to a number\<close>

text \<open>
  \<^verbatim>\<open>float(s)\<close> is modelled on the strings the parser passes to it, which consist of
  digits, periods and minus signs only (lemmas \<open>amount_arg_alphabet\<close> and
  \<open>balance_arg_alphabet\<close> below). Such a string is accepted exactly when it is an optional
  minus sign followed by digits with at most one period and at least one digit; \<open>None\<close>
  stands for \<^verbatim>\<open>ValueError\<close>. The value is the decimal number the string denotes;
  Python rounds it to the nearest binary64 number.
\<close>

definition digit_val :: "char \<Rightarrow> nat" where
  "digit_val c = of_char c - 48"

definition dec_val :: "string \<Rightarrow> nat" where
  "dec_val ds = foldl (\<lambda>a c. 10 * a + digit_val c) 0 ds"

definition py_float :: "string \<Rightarrow> real option" where
  "py_float s =
     (let neg = (s \<noteq> [] \<and> hd s = CHR ''-'');
          body = (if neg then tl s else s);
          ip = takeWhile is_digit body;
          rest = dropWhile is_digit body;
          fp = (case rest of [] \<Rightarrow> [] | c # r \<Rightarrow> r)
      in if (rest = [] \<or> (hd rest = CHR ''.'' \<and> list_all is_digit fp)) \<and> (ip \<noteq> [] \<or> fp \<noteq> [])
         then Some ((if neg then - 1 else 1) * (real (dec_val ip) + real (dec_val fp) / 10 ^ length fp))
         else None)"

section \<open>The data model\<close>

record transaction =
  Date :: string
  Description :: string
  Amount :: real

record StatementData =
  issuer :: string
  card_last_4 :: string
  billing_cycle :: string
  due_date :: string
  total_balance :: real
  transactions :: "transaction list"

text \<open>
  What \<^verbatim>\<open>pdfplumber\<close> shows of a document: its pages, each with the text
  \<^verbatim>\<open>extract_text()\<close> returns (\<open>None\<close> or a string) and the tables
  \<^verbatim>\<open>extract_tables()\<close> returns (a table is a list of rows, a row a list of cells, a
  cell \<open>None\<close> or a string). The files are a map from paths to documents; a path that
  does not open as a PDF has none.
\<close>

type_synonym cell = "string option"
type_synonym row = "cell list"
type_synonym table = "row list"

record page =
  extract_text :: "string option"
  extract_tables :: "table list"

type_synonym files = "string \<Rightarrow> page list option"

datatype error = DocumentReadError | IndexError

section \<open>ChaseParser\<close>

subsection \<open>The text of all pages\<close>

fun text_loop :: "page list \<Rightarrow> string \<Rightarrow> string" where
  "text_loop [] text = text"
| "text_loop (pg # pages) text =
     (case extract_text pg of
        None \<Rightarrow> text_loop pages text
      | Some page_text \<Rightarrow>
          if page_text = [] then text_loop pages text
          else text_loop pages (text @ page_text @ [CHR 0x0A]))"

definition extract_text_from_pdf :: "files \<Rightarrow> string \<Rightarrow> error + string" where
  "extract_text_from_pdf fs file_path =
     (case fs file_path of
        None \<Rightarrow> Inl DocumentReadError
      | Some pdf \<Rightarrow> Inr (text_loop pdf []))"

subsection \<open>The scalar fields\<close>

definition d4 :: "item list" where
  \<comment> \<open>\<^verbatim>\<open>(\d{4})\<close>\<close>
  "d4 = [Open, Rep (Cls [CDigit]) 4 (Some 4) True, Close]"

definition asterisk_pattern :: "item list" where
  \<comment> \<open>\<^verbatim>\<open>\*{4}(\d{4})\<close>\<close>
  "asterisk_pattern = Rep (Lit (CHR ''*'')) 4 (Some 4) True # d4"

definition ending_in_pattern :: "item list" where
  \<comment> \<open>\<^verbatim>\<open>ending in (\d{4})\<close>\<close>
  "ending_in_pattern = lits ''ending in '' @ d4"

definition card_ending_pattern :: "item list" where
  \<comment> \<open>\<^verbatim>\<open>card ending (\d{4})\<close>\<close>
  "card_ending_pattern = lits ''card ending '' @ d4"

definition account_ending_pattern :: "item list" where
  \<comment> \<open>\<^verbatim>\<open>account ending (\d{4})\<close>\<close>
  "account_ending_pattern = lits ''account ending '' @ d4"

definition card_patterns :: "item list list" where
  "card_patterns =
    [asterisk_pattern, ending_in_pattern, card_ending_pattern, account_ending_pattern]"

fun card_loop :: "item list list \<Rightarrow> string \<Rightarrow> string" where
  "card_loop [] text = []"
| "card_loop (pattern # patterns) text =
     (case re_search pattern text True of
        Some m \<Rightarrow> group m 1
      | None \<Rightarrow> card_loop patterns text)"

definition extract_card_last_4 :: "string \<Rightarrow> string" where
  "extract_card_last_4 text = card_loop card_patterns text"

definition period_tail :: "item list" where
  \<comment> \<open>\<^verbatim>\<open>[:\s]+([^-\n]+?)\s*-\s*([^-\n]+)\<close>\<close>
  "period_tail =
    [Rep (Cls [CChar (CHR '':''), CSpace]) 1 None True,
     Open, Rep (NCls [CChar (CHR ''-''), CChar (CHR 0x0A)]) 1 None False, Close,
     Rep (Cls [CSpace]) 0 None True,
     One (Lit (CHR ''-'')),
     Rep (Cls [CSpace]) 0 None True,
     Open, Rep (NCls [CChar (CHR ''-''), CChar (CHR 0x0A)]) 1 None True, Close]"

definition billing_patterns :: "item list list" where
  "billing_patterns =
    [lits ''statement period'' @ period_tail,
     lits ''billing period'' @ period_tail,
     lits ''period'' @ period_tail]"

fun billing_loop :: "item list list \<Rightarrow> string \<Rightarrow> string" where
  "billing_loop [] text = []"
| "billing_loop (pattern # patterns) text =
     (case re_search pattern text True of
        Some m \<Rightarrow> strip (group m 1) @ '' - '' @ strip (group m 2)
      | None \<Rightarrow> billing_loop patterns text)"

definition extract_billing_cycle :: "string \<Rightarrow> string" where
  "extract_billing_cycle text = billing_loop billing_patterns text"

definition date_tail :: "item list" where
  \<comment> \<open>\<^verbatim>\<open>[:\s]+(\d{1,2}/\d{1,2}/\d{4})\<close>\<close>
  "date_tail =
    [Rep (Cls [CChar (CHR '':''), CSpace]) 1 None True,
     Open,
     Rep (Cls [CDigit]) 1 (Some 2) True, One (Lit (CHR ''/'')),
     Rep (Cls [CDigit]) 1 (Some 2) True, One (Lit (CHR ''/'')),
     Rep (Cls [CDigit]) 4 (Some 4) True,
     Close]"

definition due_patterns :: "item list list" where
  "due_patterns =
    [lits ''due date'' @ date_tail,
     lits ''payment due'' @ date_tail,
     lits ''due'' @ date_tail]"

fun due_loop :: "item list list \<Rightarrow> string \<Rightarrow> string" where
  "due_loop [] text = []"
| "due_loop (pattern # patterns) text =
     (case re_search pattern text True of
        Some m \<Rightarrow> group m 1
      | None \<Rightarrow> due_loop patterns text)"

definition extract_due_date :: "string \<Rightarrow> string" where
  "extract_due_date text = due_loop due_patterns text"

definition amount_tail :: "item list" where
  \<comment> \<open>\<^verbatim>\<open>[:\s]+\$?([\d,]+\.?\d*)\<close>\<close>
  "amount_tail =
    [Rep (Cls [CChar (CHR '':''), CSpace]) 1 None True,
     Rep (Lit (CHR ''$'')) 0 (Some 1) True,
     Open,
     Rep (Cls [CDigit, CChar (CHR '','')]) 1 None True,
     Rep (Lit (CHR ''.'')) 0 (Some 1) True,
     Rep (Cls [CDigit]) 0 None True,
     Close]"

definition total_balance_pattern :: "item list" where
  \<comment> \<open>\<^verbatim>\<open>total balance[:\s]+\$?([\d,]+\.?\d*)\<close>\<close>
  "total_balance_pattern = lits ''total balance'' @ amount_tail"

definition current_balance_pattern :: "item list" where
  \<comment> \<open>\<^verbatim>\<open>current balance[:\s]+\$?([\d,]+\.?\d*)\<close>\<close>
  "current_balance_pattern = lits ''current balance'' @ amount_tail"

definition balance_pattern :: "item list" where
  \<comment> \<open>\<^verbatim>\<open>balance[:\s]+\$?([\d,]+\.?\d*)\<close>\<close>
  "balance_pattern = lits ''balance'' @ amount_tail"

definition balance_patterns :: "item list list" where
  "balance_patterns = [total_balance_pattern, current_balance_pattern, balance_pattern]"

fun balance_loop :: "item list list \<Rightarrow> string \<Rightarrow> real" where
  "balance_loop [] text = 0"
| "balance_loop (pattern # patterns) text =
     (case re_search pattern text True of
        Some m \<Rightarrow>
          (let amount_str = replace_char (CHR '','') [] (group m 1)
           in case py_float amount_str of
                Some v \<Rightarrow> v
              | None \<Rightarrow> balance_loop patterns text)
      | None \<Rightarrow> balance_loop patterns text)"

definition extract_total_balance :: "string \<Rightarrow> real" where
  "extract_total_balance text = balance_loop balance_patterns text"

subsection \<open>The transactions of the first page\<close>

definition cell_str :: "cell \<Rightarrow> string" where
  \<comment> \<open>\<^verbatim>\<open>str(c).strip() if c else ""\<close>\<close>
  "cell_str c = (case c of None \<Rightarrow> [] | Some s \<Rightarrow> if s = [] then [] else strip s)"

definition amount_class :: atom where
  \<comment> \<open>\<^verbatim>\<open>[^\d.,\-]\<close>\<close>
  "amount_class = NCls [CDigit, CChar (CHR ''.''), CChar (CHR '',''), CChar (CHR ''-'')]"

definition process_row :: "row \<Rightarrow> transaction option" where
  \<comment> \<open>the body of the loop over the rows; \<open>None\<close> is \<^verbatim>\<open>continue\<close>\<close>
  "process_row row =
     (if row = [] \<or> length row < 3 then None
      else
        let date = cell_str (row ! 0);
            description = cell_str (row ! 1);
            amount = cell_str (row ! 2)
        in if lower date \<in> set [''date'', ''transaction date'', '''']
              \<or> lower description \<in> set [''description'', ''merchant'', '''']
              \<or> lower amount \<in> set [''amount'', '''']
           then None
           else if date = [] \<or> description = [] \<or> amount = [] then None
           else
             let amount_clean = re_sub1 amount_class [] amount
             in case py_float (replace_char (CHR '','') [] amount_clean) of
                  None \<Rightarrow> None
                | Some amount_float \<Rightarrow>
                    Some \<lparr>Date = date, Description = description, Amount = amount_float\<rparr>)"

fun rows_loop :: "row list \<Rightarrow> transaction list \<Rightarrow> transaction list" where
  "rows_loop [] txs = txs"
| "rows_loop (row # rows) txs =
     (case process_row row of
        None \<Rightarrow> rows_loop rows txs
      | Some t \<Rightarrow> rows_loop rows (txs @ [t]))"

fun tables_loop :: "table list \<Rightarrow> transaction list \<Rightarrow> transaction list" where
  "tables_loop [] txs = txs"
| "tables_loop (table # tables) txs =
     (if table = [] \<or> length table < 2 then tables_loop tables txs
      else tables_loop tables (rows_loop table txs))"

definition extract_transactions :: "files \<Rightarrow> string \<Rightarrow> error + transaction list" where
  "extract_transactions fs file_path =
     (case fs file_path of
        None \<Rightarrow> Inl DocumentReadError
      | Some pdf \<Rightarrow>
          (case pdf of
             [] \<Rightarrow> Inl IndexError
           | first_page # _ \<Rightarrow> Inr (tables_loop (extract_tables first_page) [])))"

subsection \<open>The whole statement\<close>

definition parse :: "files \<Rightarrow> string \<Rightarrow> error + StatementData" where
  "parse fs file_path =
     (case extract_text_from_pdf fs file_path of
        Inl e \<Rightarrow> Inl e
      | Inr text \<Rightarrow>
          (case extract_transactions fs file_path of
             Inl e \<Rightarrow> Inl e
           | Inr txs \<Rightarrow>
               Inr \<lparr>issuer = ''Chase'',
                    card_last_4 = extract_card_last_4 text,
                    billing_cycle = extract_billing_cycle text,
                    due_date = extract_due_date text,
                    total_balance = extract_total_balance text,
                    transactions = txs\<rparr>))"

section \<open>Reference definitions used in the statements\<close>

definition page_text :: "page \<Rightarrow> string" where
  \<comment> \<open>the text of a page, empty when the page yields none\<close>
  "page_text pg = (case extract_text pg of None \<Rightarrow> [] | Some t \<Rightarrow> t)"

fun join :: "string \<Rightarrow> string list \<Rightarrow> string" where
  \<comment> \<open>the strings with the separator between each two of them\<close>
  "join sep [] = []"
| "join sep [x] = x"
| "join sep (x # y # ys) = x @ sep @ join sep (y # ys)"

definition joined_text :: "page list \<Rightarrow> string" where
  \<comment> \<open>the non-empty page texts joined with newline separators\<close>
  "joined_text pdf = join [CHR 0x0A] (filter (\<lambda>t. t \<noteq> []) (map page_text pdf))"

definition terminated_text :: "page list \<Rightarrow> string" where
  \<comment> \<open>the non-empty page texts, each followed by a newline\<close>
  "terminated_text pdf =
     concat (map (\<lambda>t. t @ [CHR 0x0A]) (filter (\<lambda>t. t \<noteq> []) (map page_text pdf)))"

definition scanned_rows :: "table list \<Rightarrow> row list" where
  \<comment> \<open>the rows in scan order: tables in order, the rows of each table in order, tables
      of fewer than two rows left out\<close>
  "scanned_rows tables = concat (filter (\<lambda>table. 2 \<le> length table) tables)"

definition first_page_tables :: "files \<Rightarrow> string \<Rightarrow> error + table list" where
  \<comment> \<open>the tables extracted from page index 0 of the document at a path\<close>
  "first_page_tables fs file_path =
     (case fs file_path of
        None \<Rightarrow> Inl DocumentReadError
      | Some pdf \<Rightarrow> (case pdf of [] \<Rightarrow> Inl IndexError | pg # _ \<Rightarrow> Inr (extract_tables pg)))"

definition one_file :: "string \<Rightarrow> page list \<Rightarrow> files" where
  \<comment> \<open>the files with one document\<close>
  "one_file path pdf = (\<lambda>p. if p = path then Some pdf else None)"

fun contains :: "string \<Rightarrow> string \<Rightarrow> bool" where
  \<comment> \<open>\<open>w\<close> occurs in the string\<close>
  "contains w [] = (w = [])"
| "contains w (c # cs) = (take (length w) (c # cs) = w \<or> contains w cs)"

definition attempt :: "item list \<Rightarrow> string \<Rightarrow> real option" where
  \<comment> \<open>the amount a balance pattern gives when it both matches and parses\<close>
  "attempt p text =
     (case re_search p text True of
        None \<Rightarrow> None
      | Some m \<Rightarrow> py_float (filter (\<lambda>c. c \<noteq> CHR '','') (group m 1)))"

definition hit :: "bool \<Rightarrow> string \<Rightarrow> string \<Rightarrow> bool" where
  \<comment> \<open>the string starts with the literal \<open>w\<close> followed by four digits\<close>
  "hit ic w s =
     (length w + 4 \<le> length s
      \<and> list_all2 (\<lambda>x c. am ic (Lit x) c) w (take (length w) s)
      \<and> list_all is_digit (take 4 (drop (length w) s)))"

definition header_like :: "row \<Rightarrow> bool" where
  \<comment> \<open>the trimmed date cell or the trimmed description cell is a header word or blank\<close>
  "header_like row =
     (lower (cell_str (row ! 0)) \<in> {''date'', ''transaction date'', ''''}
      \<or> lower (cell_str (row ! 1)) \<in> {''description'', ''merchant'', ''''})"

definition keep_all_minus :: "string \<Rightarrow> string" where
  \<comment> \<open>every character removed that is not a digit, period, comma or minus sign\<close>
  "keep_all_minus s =
     filter (\<lambda>c. is_digit c \<or> c = CHR ''.'' \<or> c = CHR '','' \<or> c = CHR ''-'') s"

definition keep_leading_minus :: "string \<Rightarrow> string" where
  \<comment> \<open>every character removed that is not a digit, period, comma or a leading minus sign\<close>
  "keep_leading_minus s =
     (let keep = filter (\<lambda>c. is_digit c \<or> c = CHR ''.'' \<or> c = CHR '','')
      in case s of [] \<Rightarrow> []
         | c # r \<Rightarrow> if c = CHR ''-'' then c # keep r else keep (c # r))"

definition drop_commas :: "string \<Rightarrow> string" where
  "drop_commas s = filter (\<lambda>c. c \<noteq> CHR '','') s"

definition non_numeric :: "row \<Rightarrow> bool" where
  \<comment> \<open>the third cell does not parse as a number after normalization\<close>
  "non_numeric row = (py_float (drop_commas (keep_all_minus (cell_str (row ! 2)))) = None)"

section \<open>Properties of the loops\<close>

lemma text_loop_eq: "text_loop pdf text = text @ terminated_text pdf"
  by (induction pdf arbitrary: "text")
     (simp_all add: terminated_text_def page_text_def split: option.split)

lemma rows_loop_eq: "rows_loop rows txs = txs @ List.map_filter process_row rows"
  by (induction rows arbitrary: txs) (simp_all add: List.map_filter_simps split: option.split)

lemma map_filter_append:
  "List.map_filter f (xs @ ys) = List.map_filter f xs @ List.map_filter f ys"
  by (simp add: List.map_filter_def)

lemma tables_loop_eq:
  "tables_loop tables txs = txs @ List.map_filter process_row (scanned_rows tables)"
proof (induction tables arbitrary: txs)
  case Nil
  show ?case by (simp add: scanned_rows_def List.map_filter_simps)
next
  case (Cons table tables)
  have short: "(table = [] \<or> length table < 2) = (\<not> 2 \<le> length table)"
    by (auto simp: not_le)
  show ?case
    using Cons.IH
    by (simp add: short scanned_rows_def rows_loop_eq map_filter_append del: One_nat_def)
qed

lemma extract_transactions_eq:
  "extract_transactions fs file_path =
     map_sum id (\<lambda>tables. List.map_filter process_row (scanned_rows tables))
       (first_page_tables fs file_path)"
  by (simp add: extract_transactions_def first_page_tables_def tables_loop_eq
           split: option.split list.split)

lemma set_map_filter: "set (List.map_filter f xs) = {y. \<exists>x\<in>set xs. f x = Some y}"
  by (induction xs) (auto simp: List.map_filter_simps split: option.splits)

lemma re_sub1_amount: "re_sub1 amount_class [] s = keep_all_minus s"
  by (induction s) (auto simp: re_sub1_def amount_class_def keep_all_minus_def)

lemma replace_comma: "replace_char (CHR '','') [] s = drop_commas s"
  by (induction s) (simp_all add: replace_char_def drop_commas_def)

lemma process_row_Some:
  assumes "process_row row = Some t"
  shows "3 \<le> length row" and "\<not> header_like row"
    and "Date t = cell_str (row ! 0)" and "Description t = cell_str (row ! 1)"
    and "Date t \<noteq> []" and "Description t \<noteq> []"
    and "py_float (drop_commas (keep_all_minus (cell_str (row ! 2)))) = Some (Amount t)"
  using assms
  by (auto simp: process_row_def header_like_def Let_def re_sub1_amount replace_comma
           split: if_splits option.splits)

lemma extract_transactions_no_tables:
  "fs file_path = Some (first_page # rest) \<Longrightarrow> extract_tables first_page = [] \<Longrightarrow>
     extract_transactions fs file_path = Inr []"
  by (simp add: extract_transactions_def)

lemma lower_Nil [simp]: "(lower s = []) = (s = [])"
  by (simp add: lower_def)

lemma non_numeric_dropped: "non_numeric row \<Longrightarrow> process_row row = None"
  by (simp add: process_row_def non_numeric_def Let_def re_sub1_amount replace_comma)

lemma process_row_accepts:
  assumes "3 \<le> length row" and "\<not> header_like row"
    and "lower (cell_str (row ! 2)) \<noteq> ''amount''" and "cell_str (row ! 2) \<noteq> []"
    and "py_float (drop_commas (keep_all_minus (cell_str (row ! 2)))) = Some v"
  shows "process_row row =
           Some \<lparr>Date = cell_str (row ! 0), Description = cell_str (row ! 1), Amount = v\<rparr>"
proof -
  from assms(1) have "row \<noteq> []" and "\<not> length row < 3" by auto
  with assms show ?thesis
    by (simp add: process_row_def header_like_def Let_def re_sub1_amount replace_comma)
qed

lemmas row_eval =
  process_row_def cell_str_def strip_def is_space_def lower_def lower_char_def re_sub1_def
  amount_class_def replace_char_def py_float_def is_digit_def dec_val_def digit_val_def Let_def

lemma parse_Inr:
  assumes "fs file_path = Some (first_page # rest)"
  shows "\<exists>sd. parse fs file_path = Inr sd
          \<and> transactions sd =
              List.map_filter process_row (scanned_rows (extract_tables first_page))"
  using assms
  by (simp add: parse_def extract_text_from_pdf_def extract_transactions_eq
        first_page_tables_def)

section \<open>Properties of the pattern matcher\<close>

text \<open>
  A repetition with equal bounds and a run of literals match in one way only, which gives
  the match of a card pattern at a position in closed form (\<open>hit\<close>). A match of such
  a pattern cannot start before an occurrence and reach into it, since a digit of the
  match would fall on a character of the literal; so the first occurrence is found when
  no match precedes it.
\<close>

lemma is_digit_lower: "is_digit c \<Longrightarrow> lower_char c = c"
  by (auto simp: is_digit_def lower_char_def)

lemma takeWhile_len_ge:
  "(n \<le> length (takeWhile P s)) = (n \<le> length s \<and> list_all P (take n s))"
proof (induction s arbitrary: n)
  case Nil
  show ?case by simp
next
  case (Cons c s)
  show ?case by (cases n) (auto simp: Cons.IH)
qed

lemma rep_counts_exact: "rep_counts n (Some n) g run = (if n \<le> run then [n] else [])"
  by (auto simp: rep_counts_def min_def)

lemma first_some_single: "first_some [x] = x"
  by (cases x) simp_all

lemma mt_rep_exact:
  "mt ic (Rep a n (Some n) g # r) s k =
     (if n \<le> length s \<and> list_all (am ic a) (take n s) then mt ic r (drop n s) (k + n)
      else None)"
  by (simp add: rep_counts_exact takeWhile_len_ge first_some_single)

lemma mt_lits:
  "mt ic (lits w @ r) s k =
     (if length w \<le> length s \<and> list_all2 (\<lambda>x c. am ic (Lit x) c) w (take (length w) s)
      then mt ic r (drop (length w) s) (k + length w) else None)"
proof (induction w arbitrary: s k)
  case Nil
  show ?case by (simp add: lits_def)
next
  case (Cons x w)
  have IH: "mt ic (map (\<lambda>c. One (Lit c)) w @ r) s k =
     (if length w \<le> length s \<and> list_all2 (\<lambda>x c. am ic (Lit x) c) w (take (length w) s)
      then mt ic r (drop (length w) s) (k + length w) else None)" for s k
    using Cons.IH [of s k] by (simp add: lits_def)
  show ?case
    by (cases s) (simp_all add: lits_def IH)
qed

lemma am_digit: "am ic (Cls [CDigit]) = is_digit"
  by (rule ext) simp

lemma mt_d4:
  "mt ic d4 s k = (if 4 \<le> length s \<and> list_all is_digit (take 4 s) then Some [k, k + 4] else None)"
  by (simp add: d4_def mt_rep_exact am_digit del: mt.simps(5))

lemma first_some_SomeD: "first_some (map f ns) = Some y \<Longrightarrow> \<exists>n\<in>set ns. f n = Some y"
proof (induction ns)
  case Nil
  then show ?case by simp
next
  case (Cons n ns)
  then show ?case by (cases "f n") auto
qed

lemma rep_counts_bound: "n \<in> set (rep_counts lo hi g run) \<Longrightarrow> lo \<le> n \<and> n \<le> run"
  by (auto simp: rep_counts_def Let_def split: option.splits if_splits)

lemma mt_RepD:
  assumes "mt ic (Rep a lo hi g # r) s k = Some m"
  obtains n where "lo \<le> n" and "n \<le> length s" and "list_all (am ic a) (take n s)"
    and "mt ic r (drop n s) (k + n) = Some m"
proof -
  from assms obtain n where
    n: "n \<in> set (rep_counts lo hi g (length (takeWhile (am ic a) s)))"
       "mt ic r (drop n s) (k + n) = Some m"
    by (auto dest: first_some_SomeD)
  from rep_counts_bound [OF n(1)] have "lo \<le> n" and "n \<le> length (takeWhile (am ic a) s)"
    by auto
  with n(2) that show thesis by (simp add: takeWhile_len_ge)
qed

lemma mt_Rep_ex:
  assumes "mt ic (Rep a lo hi g # r) s k = Some m"
  shows "\<exists>n. lo \<le> n \<and> n \<le> length s \<and> list_all (am ic a) (take n s)
           \<and> mt ic r (drop n s) (k + n) = Some m"
  using assms by (rule mt_RepD) blast

lemma re_search_SomeD:
  "re_search p s ic = Some g \<Longrightarrow>
     \<exists>pre s' m. s = pre @ s' \<and> mt ic p s' 0 = Some m \<and> g = groups_of m s'"
proof (induction s)
  case Nil
  then show ?case by auto
next
  case (Cons c cs)
  show ?case
  proof (cases "mt ic p (c # cs) 0")
    case None
    with Cons.prems have "re_search p cs ic = Some g" by simp
    from Cons.IH [OF this] obtain pre s' m where
      "cs = pre @ s'" "mt ic p s' 0 = Some m" "g = groups_of m s'" by blast
    then have "c # cs = (c # pre) @ s'" by simp
    with \<open>mt ic p s' 0 = Some m\<close> \<open>g = groups_of m s'\<close> show ?thesis by blast
  next
    case (Some m)
    with Cons.prems have "g = groups_of m (c # cs)" by simp
    moreover have "c # cs = [] @ (c # cs)" by simp
    ultimately show ?thesis using Some by blast
  qed
qed


lemma mt_lits_d4:
  "mt ic (lits w @ d4) s 0 = (if hit ic w s then Some [length w, length w + 4] else None)"
  by (auto simp: mt_lits mt_d4 hit_def)

lemma list_all2_replicate:
  "list_all2 Q (replicate n x) ys = (length ys = n \<and> list_all (Q x) ys)"
proof (induction n arbitrary: ys)
  case 0
  show ?case by auto
next
  case (Suc n)
  show ?case by (cases ys) (auto simp: Suc.IH)
qed

lemma mt_star_d4:
  "mt ic (Rep (Lit (CHR ''*'')) 4 (Some 4) True # d4) s 0 =
     (if hit ic ''****'' s then Some [4, 8] else None)"
proof -
  have r: "''****'' = replicate 4 (CHR ''*'')" by (simp add: eval_nat_numeral)
  have len4: "length ''****'' = 4" by simp
  have q: "list_all2 (\<lambda>x c. am ic (Lit x) c) ''****'' (take 4 s) =
        (length (take 4 s) = 4 \<and> list_all (am ic (Lit (CHR ''*''))) (take 4 s))"
    unfolding r by (rule list_all2_replicate)
  have H: "hit ic ''****'' s =
        (4 + 4 \<le> length s
         \<and> (length (take 4 s) = 4 \<and> list_all (am ic (Lit (CHR ''*''))) (take 4 s))
         \<and> list_all is_digit (take 4 (drop 4 s)))"
    by (simp only: hit_def len4 q)
  have m1: "mt ic (Rep (Lit (CHR ''*'')) 4 (Some 4) True # d4) s 0 =
     (if 4 \<le> length s \<and> list_all (am ic (Lit (CHR ''*''))) (take 4 s)
      then mt ic d4 (drop 4 s) (0 + 4) else None)"
    by (rule mt_rep_exact)
  have m2: "mt ic d4 (drop 4 s) (0 + 4) =
     (if 4 \<le> length (drop 4 s) \<and> list_all is_digit (take 4 (drop 4 s))
      then Some [0 + 4, 0 + 4 + 4] else None)"
    by (rule mt_d4)
  show ?thesis
    unfolding H m1 m2 by auto
qed

lemma hit_overlap:
  assumes s: "s \<noteq> []" and t: "hit ic w t" and w: "w \<noteq> []"
    and nodigit: "\<forall>x\<in>set w. \<forall>c. am ic (Lit x) c \<longrightarrow> \<not> is_digit c"
    and st: "hit ic w (s @ t)"
  shows "hit ic w s"
proof (cases "length w + 4 \<le> length s")
  case True
  then have "take (length w) (s @ t) = take (length w) s"
    and "take 4 (drop (length w) (s @ t)) = take 4 (drop (length w) s)"
    by simp_all
  with st True show ?thesis by (simp add: hit_def)
next
  case False
  let ?n = "length w"
  have tn: "\<not> is_digit (t ! i)" if "i < ?n" for i
  proof -
    from t have "list_all2 (\<lambda>x c. am ic (Lit x) c) w (take ?n t)" and "?n \<le> length t"
      by (simp_all add: hit_def)
    with that have "am ic (Lit (w ! i)) (t ! i)"
      by (auto simp: list_all2_conv_all_nth)
    moreover from that have "w ! i \<in> set w" by simp
    ultimately show ?thesis using nodigit by blast
  qed
  have dg: "is_digit ((s @ t) ! (?n + j))" if "j < 4" for j
  proof -
    from st have la: "list_all is_digit (take 4 (drop ?n (s @ t)))"
      and len: "?n + 4 \<le> length (s @ t)"
      unfolding hit_def by blast+
    from la have "\<forall>i<length (take 4 (drop ?n (s @ t))). is_digit (take 4 (drop ?n (s @ t)) ! i)"
      by (simp only: list_all_length)
    moreover from len have "length (take 4 (drop ?n (s @ t))) = 4" by simp
    moreover from that len have "take 4 (drop ?n (s @ t)) ! j = (s @ t) ! (?n + j)"
      by (simp del: drop_append take_append)
    ultimately show ?thesis using that by metis
  qed
  from s have s1: "1 \<le> length s" by (cases s) auto
  from w have w1: "1 \<le> ?n" by (cases w) auto
  show ?thesis
  proof (cases "length s \<le> ?n")
    case True
    from dg [of 0] have "is_digit ((s @ t) ! ?n)" by simp
    moreover from True have "(s @ t) ! ?n = t ! (?n - length s)"
      by (simp add: nth_append)
    moreover from s1 w1 True have "?n - length s < ?n" by arith
    ultimately show ?thesis using tn by auto
  next
    case False
    with \<open>\<not> ?n + 4 \<le> length s\<close> have "length s - ?n < 4" and "?n + (length s - ?n) = length s"
      by arith+
    with dg [of "length s - ?n"] have "is_digit ((s @ t) ! length s)" by simp
    then have "is_digit (t ! 0)" by (simp add: nth_append)
    with tn [of 0] w show ?thesis by auto
  qed
qed

lemma re_search_first_hit:
  assumes mt: "\<And>s. mt ic p s 0 = (if hit ic w s then Some [length w, length w + 4] else None)"
    and t: "hit ic w t" and w: "w \<noteq> []"
    and nodigit: "\<forall>x\<in>set w. \<forall>c. am ic (Lit x) c \<longrightarrow> \<not> is_digit c"
    and pre: "re_search p pre ic = None"
  shows "re_search p (pre @ t) ic = Some [take 4 (drop (length w) t)]"
  using pre
proof (induction pre)
  case Nil
  from t have "t \<noteq> []" by (auto simp: hit_def)
  then obtain c cs where "t = c # cs" by (cases t) auto
  with t show ?case by (simp add: mt)
next
  case (Cons c cs)
  from Cons.prems have no: "\<not> hit ic w (c # cs)" and rest: "re_search p cs ic = None"
    by (auto simp: mt split: if_splits)
  from no hit_overlap [OF _ t w nodigit, of "c # cs"] have "\<not> hit ic w ((c # cs) @ t)"
    by blast
  with Cons.IH [OF rest] show ?case by (simp add: mt)
qed

lemma re_search_hit_group:
  assumes mt: "\<And>s. mt ic p s 0 = (if hit ic w s then Some [length w, length w + 4] else None)"
    and g: "re_search p s ic = Some m"
  shows "\<exists>d. m = [d] \<and> length d = 4 \<and> list_all is_digit d"
proof -
  from re_search_SomeD [OF g] obtain pre s' m' where
    "s = pre @ s'" "mt ic p s' 0 = Some m'" "m = groups_of m' s'" by blast
  then have "hit ic w s'" and "m = [take 4 (drop (length w) s')]"
    by (auto simp: mt split: if_splits)
  then show ?thesis by (auto simp: hit_def)
qed


lemma nodigit_lower:
  assumes "\<forall>x\<in>set w. lower_char x = x \<and> \<not> is_digit x"
  shows "\<forall>x\<in>set w. \<forall>c. am True (Lit x) c \<longrightarrow> \<not> is_digit c"
proof (intro ballI allI impI)
  fix x c assume x: "x \<in> set w" and m: "am True (Lit x) c"
  show "\<not> is_digit c"
  proof
    assume "is_digit c"
    then have "lower_char c = c" by (rule is_digit_lower)
    with m x assms have "c = x" by simp
    with \<open>is_digit c\<close> x assms show False by blast
  qed
qed

lemma hit_occurrence:
  assumes u: "map lower_char u = w" and w: "map lower_char w = w"
    and d: "length d = 4" "list_all is_digit d"
  shows "hit True w (u @ d @ post)"
proof -
  from u have len: "length u = length w" by auto
  have "am True (Lit (w ! i)) (u ! i)" if "i < length w" for i
  proof -
    from u that len have "w ! i = lower_char (u ! i)" by (metis nth_map)
    moreover from w that have "lower_char (w ! i) = w ! i" by (metis nth_map)
    ultimately show ?thesis by simp
  qed
  with len have "list_all2 (\<lambda>x c. am True (Lit x) c) w u"
    by (simp add: list_all2_conv_all_nth)
  with len d show ?thesis by (simp add: hit_def)
qed

lemma mt_asterisk:
  "mt ic asterisk_pattern s 0 =
     (if hit ic ''****'' s then Some [length ''****'', length ''****'' + 4] else None)"
  by (simp add: asterisk_pattern_def mt_star_d4 del: mt.simps)

lemma card_group:
  assumes "p \<in> set card_patterns" and "re_search p s True = Some m"
  shows "\<exists>d. m = [d] \<and> length d = 4 \<and> list_all is_digit d"
proof -
  from assms(1) consider "p = asterisk_pattern" | "p = ending_in_pattern"
    | "p = card_ending_pattern" | "p = account_ending_pattern"
    by (auto simp: card_patterns_def)
  then show ?thesis
  proof cases
    case 1
    with assms(2) show ?thesis
      using re_search_hit_group [of True asterisk_pattern "''****''" s m] mt_asterisk by blast
  next
    case 2
    with assms(2) show ?thesis
      using re_search_hit_group [of True ending_in_pattern "''ending in ''" s m] mt_lits_d4
      unfolding ending_in_pattern_def by blast
  next
    case 3
    with assms(2) show ?thesis
      using re_search_hit_group [of True card_ending_pattern "''card ending ''" s m] mt_lits_d4
      unfolding card_ending_pattern_def by blast
  next
    case 4
    with assms(2) show ?thesis
      using re_search_hit_group [of True account_ending_pattern "''account ending ''" s m]
        mt_lits_d4
      unfolding account_ending_pattern_def by blast
  qed
qed

lemma card_loop_shape:
  assumes "set ps \<subseteq> set card_patterns"
  shows "card_loop ps s = [] \<or> (length (card_loop ps s) = 4 \<and> list_all is_digit (card_loop ps s))"
  using assms
proof (induction ps)
  case Nil
  show ?case by simp
next
  case (Cons p ps)
  show ?case
  proof (cases "re_search p s True")
    case None
    with Cons show ?thesis by simp
  next
    case (Some m)
    from Cons.prems have "p \<in> set card_patterns" by simp
    from card_group [OF this Some] obtain d where "m = [d]" "length d = 4" "list_all is_digit d"
      by blast
    with Some show ?thesis by (simp add: group_def)
  qed
qed

lemma extract_card_last_4_shape:
  "extract_card_last_4 s = []
   \<or> (length (extract_card_last_4 s) = 4 \<and> list_all is_digit (extract_card_last_4 s))"
  unfolding extract_card_last_4_def by (rule card_loop_shape) simp

lemma asterisk_first:
  assumes "re_search asterisk_pattern pre True = None"
    and "length d = 4" and "list_all is_digit d"
  shows "re_search asterisk_pattern (pre @ ''****'' @ d @ post) True = Some [d]"
proof -
  have t: "hit True ''****'' (''****'' @ d @ post)"
    using assms(2,3) by (intro hit_occurrence) (simp_all add: lower_char_def)
  have nd: "\<forall>x\<in>set ''****''. \<forall>c. am True (Lit x) c \<longrightarrow> \<not> is_digit c"
    by (rule nodigit_lower) (simp add: lower_char_def is_digit_def)
  from re_search_first_hit [of True asterisk_pattern "''****''" "''****'' @ d @ post" pre,
      OF mt_asterisk t _ nd assms(1)] assms(2)
  show ?thesis by simp
qed

lemma ending_in_first:
  assumes "re_search ending_in_pattern pre True = None"
    and "lower u = ''ending in ''"
    and "length d = 4" and "list_all is_digit d"
  shows "re_search ending_in_pattern (pre @ u @ d @ post) True = Some [d]"
proof -
  from assms(2) have lu: "length u = 10" by (auto simp: lower_def)
  have t: "hit True ''ending in '' (u @ d @ post)"
    using assms(2,3,4) by (intro hit_occurrence) (simp_all add: lower_def lower_char_def)
  have nd: "\<forall>x\<in>set ''ending in ''. \<forall>c. am True (Lit x) c \<longrightarrow> \<not> is_digit c"
    by (rule nodigit_lower) (simp add: lower_char_def is_digit_def)
  have m: "mt True ending_in_pattern s 0 =
      (if hit True ''ending in '' s
       then Some [length ''ending in '', length ''ending in '' + 4] else None)" for s
    unfolding ending_in_pattern_def by (rule mt_lits_d4)
  from re_search_first_hit [of True ending_in_pattern "''ending in ''" "u @ d @ post" pre,
      OF m t _ nd assms(1)] assms(3) lu
  show ?thesis by simp
qed


lemma lower_char_comma: "lower_char c = CHR '','' \<Longrightarrow> c = CHR '',''"
  by (cases c) (auto simp: lower_char_def Let_def of_bool_def split: if_splits)

lemma lower_char_period: "lower_char c = CHR ''.'' \<Longrightarrow> c = CHR ''.''"
  by (cases c) (auto simp: lower_char_def Let_def of_bool_def split: if_splits)

lemma mt_marks_length:
  "mt ic p s k = Some m \<Longrightarrow> length m = length (filter (\<lambda>i. i = Open \<or> i = Close) p)"
proof (induction ic p s k arbitrary: m rule: mt.induct)
  case (1 ic s k)
  then show ?case by simp
next
  case (2 ic r s k)
  then show ?case by auto
next
  case (3 ic r s k)
  then show ?case by auto
next
  case (4 ic a r s k)
  then show ?case by (cases s) (auto split: if_splits)
next
  case (5 ic a lo hi greedy r s k)
  from "5.prems" obtain n where
    "n \<in> set (rep_counts lo hi greedy (length (takeWhile (am ic a) s)))"
    "mt ic r (drop n s) (k + n) = Some m"
    by (auto dest: first_some_SomeD)
  with "5.IH" show ?case by simp
qed

lemma amount_tail_group:
  assumes "mt True amount_tail (drop k s0) k = Some m"
  shows "\<exists>g. groups_of m s0 = [g] \<and> list_all (\<lambda>c. is_digit c \<or> c = CHR '','' \<or> c = CHR ''.'') g"
proof -
  let ?A = "Cls [CChar (CHR '':''), CSpace]"
  let ?C = "Cls [CDigit, CChar (CHR '','')]"
  let ?ok = "\<lambda>c. is_digit c \<or> c = CHR '','' \<or> c = CHR ''.''"
  from mt_Rep_ex [OF assms [unfolded amount_tail_def]] obtain n0 where
    a0: "mt True [Rep (Lit (CHR ''$'')) 0 (Some 1) True, Open, Rep ?C 1 None True,
           Rep (Lit (CHR ''.'')) 0 (Some 1) True, Rep (Cls [CDigit]) 0 None True, Close]
           (drop n0 (drop k s0)) (k + n0) = Some m"
    by blast
  from mt_Rep_ex [OF a0] obtain n1 where
    a1: "mt True [Open, Rep ?C 1 None True,
           Rep (Lit (CHR ''.'')) 0 (Some 1) True, Rep (Cls [CDigit]) 0 None True, Close]
           (drop n1 (drop n0 (drop k s0))) (k + n0 + n1) = Some m"
    by blast
  define b where "b = k + n0 + n1"
  have x: "drop n1 (drop n0 (drop k s0)) = drop b s0"
    by (simp add: b_def add.commute add.left_commute)
  from a1 obtain m1 where m: "m = b # m1"
    and a2: "mt True [Rep ?C 1 None True, Rep (Lit (CHR ''.'')) 0 (Some 1) True,
           Rep (Cls [CDigit]) 0 None True, Close] (drop b s0) b = Some m1"
    unfolding x b_def [symmetric] by (auto simp del: mt.simps(5))
  from mt_Rep_ex [OF a2] obtain n2 where c2: "list_all (am True ?C) (take n2 (drop b s0))"
    and a3: "mt True [Rep (Lit (CHR ''.'')) 0 (Some 1) True, Rep (Cls [CDigit]) 0 None True, Close]
           (drop n2 (drop b s0)) (b + n2) = Some m1"
    by blast
  from mt_Rep_ex [OF a3] obtain n3 where c3: "list_all (am True (Lit (CHR ''.''))) (take n3 (drop n2 (drop b s0)))"
    and a4: "mt True [Rep (Cls [CDigit]) 0 None True, Close]
           (drop n3 (drop n2 (drop b s0))) (b + n2 + n3) = Some m1"
    by blast
  from mt_Rep_ex [OF a4] obtain n4 where
    c4: "list_all (am True (Cls [CDigit])) (take n4 (drop n3 (drop n2 (drop b s0))))"
    and a5: "mt True [Close] (drop n4 (drop n3 (drop n2 (drop b s0)))) (b + n2 + n3 + n4) = Some m1"
    by blast
  from a5 have m1: "m1 = [b + n2 + n3 + n4]" by auto
  have lc: "lower_char (CHR '','') = CHR '',''" and lp: "lower_char (CHR ''.'') = CHR ''.''"
    by (simp_all add: lower_char_def)
  have "take (n2 + n3 + n4) (drop b s0) =
          take n2 (drop b s0) @ take n3 (drop n2 (drop b s0))
          @ take n4 (drop n3 (drop n2 (drop b s0)))"
    by (simp only: take_add add.assoc)
  moreover have "list_all ?ok (take n2 (drop b s0))"
    using c2 by (auto simp: list_all_iff lc dest: lower_char_comma)
  moreover have "list_all ?ok (take n3 (drop n2 (drop b s0)))"
    using c3 by (auto simp: list_all_iff lp dest: lower_char_period)
  moreover have "list_all ?ok (take n4 (drop n3 (drop n2 (drop b s0))))"
    using c4 by (auto simp: list_all_iff)
  ultimately have "list_all ?ok (take (n2 + n3 + n4) (drop b s0))"
    by (simp del: take_drop drop_drop)
  moreover have "groups_of m s0 = [take (n2 + n3 + n4) (drop b s0)]"
    by (simp add: m m1 add.assoc)
  ultimately show ?thesis by simp
qed

lemma list_all2_lower:
  "list_all2 (\<lambda>x c. am True (Lit x) c) w ys \<Longrightarrow> map lower_char ys = map lower_char w"
  by (induction rule: list_all2_induct) auto

lemma mt_lits_SomeD:
  assumes "mt True (lits w @ r) s k = Some m"
  shows "length w \<le> length s" and "map lower_char (take (length w) s) = map lower_char w"
    and "mt True r (drop (length w) s) (k + length w) = Some m"
proof -
  from assms have c: "length w \<le> length s"
      "list_all2 (\<lambda>x c. am True (Lit x) c) w (take (length w) s)"
    and r: "mt True r (drop (length w) s) (k + length w) = Some m"
    by (simp_all add: mt_lits split: if_splits)
  from c(1) show "length w \<le> length s" .
  from c(2) show "map lower_char (take (length w) s) = map lower_char w"
    by (rule list_all2_lower)
  from r show "mt True r (drop (length w) s) (k + length w) = Some m" .
qed

lemma balance_group:
  assumes "p \<in> set balance_patterns" and "re_search p text True = Some m"
  shows "\<exists>g. m = [g] \<and> list_all (\<lambda>c. is_digit c \<or> c = CHR '','' \<or> c = CHR ''.'') g"
proof -
  from assms(1) obtain w where p: "p = lits w @ amount_tail"
    by (auto simp: balance_patterns_def total_balance_pattern_def current_balance_pattern_def
          balance_pattern_def)
  from re_search_SomeD [OF assms(2)] obtain pre s' m' where
    s': "text = pre @ s'" "mt True p s' 0 = Some m'" "m = groups_of m' s'" by blast
  from mt_lits_SomeD(3) [OF s'(2) [unfolded p]]
  have "mt True amount_tail (drop (length w) s') (length w) = Some m'" by simp
  from amount_tail_group [OF this] s'(3) show ?thesis by simp
qed

lemma balance_arg_alphabet:
  assumes "p \<in> set balance_patterns" and "re_search p text True = Some m"
  shows "list_all (\<lambda>c. is_digit c \<or> c = CHR ''.'')
           (replace_char (CHR '','') [] (group m 1))"
proof -
  from balance_group [OF assms] obtain g where
    "m = [g]" "list_all (\<lambda>c. is_digit c \<or> c = CHR '','' \<or> c = CHR ''.'') g" by blast
  then show ?thesis
    by (auto simp: replace_comma drop_commas_def group_def list_all_iff)
qed

lemma amount_arg_alphabet:
  "list_all (\<lambda>c. is_digit c \<or> c = CHR ''.'' \<or> c = CHR ''-'')
     (replace_char (CHR '','') [] (re_sub1 amount_class [] s))"
  by (induction s)
     (auto simp: replace_char_def re_sub1_def amount_class_def)


lemma groups_of_length: "length (groups_of m s) = length m div 2"
  by (induction m s rule: groups_of.induct) simp_all

lemma re_search_groups:
  assumes "re_search p s ic = Some g"
  shows "length g = length (filter (\<lambda>i. i = Open \<or> i = Close) p) div 2"
proof -
  from re_search_SomeD [OF assms] obtain pre s' m where
    "mt ic p s' 0 = Some m" "g = groups_of m s'" by blast
  with mt_marks_length [of ic p s' 0 m] show ?thesis
    by (simp add: groups_of_length)
qed

lemma billing_groups:
  assumes "p \<in> set billing_patterns" and "re_search p s True = Some g"
  shows "length g = 2"
  using assms(1) re_search_groups [OF assms(2)]
  by (auto simp: billing_patterns_def period_tail_def lits_def)

lemma due_groups:
  assumes "p \<in> set due_patterns" and "re_search p s True = Some g"
  shows "length g = 1"
  using assms(1) re_search_groups [OF assms(2)]
  by (auto simp: due_patterns_def date_tail_def lits_def)

lemma contains_append: "contains w (a @ w @ b)"
proof (induction a)
  case Nil
  show ?case
  proof (cases "w @ b")
    case Nil
    then show ?thesis by simp
  next
    case (Cons c cs)
    have "take (length w) (w @ b) = w" by simp
    with Cons show ?thesis by simp
  qed
next
  case (Cons x a)
  then show ?case by simp
qed

lemma search_lits_contains:
  assumes "re_search (lits (v @ w) @ r) text True = Some m" and "map lower_char w = w"
  shows "contains w (lower text)"
proof -
  from re_search_SomeD [OF assms(1)] obtain pre s' m' where
    s': "text = pre @ s'" "mt True (lits (v @ w) @ r) s' 0 = Some m'" by blast
  let ?n = "length (v @ w)"
  from mt_lits_SomeD(1,2) [OF s'(2)] have len: "?n \<le> length s'"
    and lw: "map lower_char (take ?n s') = map lower_char (v @ w)" by auto
  have "s' = take ?n s' @ drop ?n s'" by simp
  then have "lower text = lower pre @ map lower_char (take ?n s') @ lower (drop ?n s')"
    unfolding s'(1) lower_def by (metis map_append)
  with lw assms(2) have
    "lower text = (lower pre @ map lower_char v) @ w @ lower (drop ?n s')"
    by simp
  then show ?thesis by (metis contains_append)
qed

lemma no_balance:
  assumes "\<not> contains ''balance'' (lower text)" and "p \<in> set balance_patterns"
  shows "re_search p text True = None"
proof (rule ccontr)
  assume "re_search p text True \<noteq> None"
  then obtain m where m: "re_search p text True = Some m" by auto
  have lw: "map lower_char ''balance'' = ''balance''" by (simp add: lower_char_def)
  from assms(2) consider "p = lits (''total '' @ ''balance'') @ amount_tail"
    | "p = lits (''current '' @ ''balance'') @ amount_tail"
    | "p = lits ([] @ ''balance'') @ amount_tail"
    by (auto simp: balance_patterns_def total_balance_pattern_def current_balance_pattern_def
          balance_pattern_def)
  then have "contains ''balance'' (lower text)"
  proof cases
    case 1
    from search_lits_contains [OF m [unfolded 1] lw] show ?thesis .
  next
    case 2
    from search_lits_contains [OF m [unfolded 2] lw] show ?thesis .
  next
    case 3
    from search_lits_contains [OF m [unfolded 3] lw] show ?thesis .
  qed
  with assms(1) show False by contradiction
qed

lemma attempt_no_match: "re_search p text True = None \<Longrightarrow> attempt p text = None"
  by (simp add: attempt_def)

lemma balance_loop_step:
  "balance_loop (p # ps) text =
     (case attempt p text of Some v \<Rightarrow> v | None \<Rightarrow> balance_loop ps text)"
  by (simp add: attempt_def replace_comma drop_commas_def split: option.split)

lemma extract_total_balance_eq:
  "extract_total_balance text =
     (case attempt total_balance_pattern text of Some v \<Rightarrow> v
      | None \<Rightarrow> (case attempt current_balance_pattern text of Some v \<Rightarrow> v
      | None \<Rightarrow> (case attempt balance_pattern text of Some v \<Rightarrow> v
      | None \<Rightarrow> 0)))"
  unfolding extract_total_balance_def balance_patterns_def balance_loop_step
  by (simp split: option.split)

lemmas re_eval =
  extract_card_last_4_def card_patterns_def asterisk_pattern_def ending_in_pattern_def
  card_ending_pattern_def account_ending_pattern_def d4_def lits_def rep_counts_def
  group_def is_digit_def is_space_def lower_char_def Let_def
  extract_total_balance_def balance_patterns_def total_balance_pattern_def
  current_balance_pattern_def balance_pattern_def amount_tail_def attempt_def
  replace_char_def py_float_def dec_val_def digit_val_def

section \<open>The claims\<close>

text \<open>
  C1. A document that opens but has no pages: the claim has the extraction of the
  transactions return the empty list. The code indexes page 0 without a check, so that
  \<^verbatim>\<open>pdf.pages[0]\<close> raises \<^verbatim>\<open>IndexError\<close>, which nothing catches, while the
  extraction of the text from the same document returns the empty string; the whole
  parse fails.
\<close>

theorem extract_transactions_no_pages:
  "extract_transactions (one_file ''statement.pdf'' []) ''statement.pdf'' = Inl IndexError
   \<and> extract_text_from_pdf (one_file ''statement.pdf'' []) ''statement.pdf'' = Inr []
   \<and> parse (one_file ''statement.pdf'' []) ''statement.pdf'' = Inl IndexError"
  by (simp add: extract_transactions_def extract_text_from_pdf_def parse_def one_file_def)

text \<open>
  C2, as stated: only a leading minus sign survives the normalization of the amount. On
  the amount cell \<open>5-\<close> that normalization leaves \<open>5\<close>, which parses, so that the row
  would be a transaction of amount 5; the code keeps the minus sign and drops the row.
\<close>

theorem leading_minus_counterexample:
  "py_float (drop_commas (keep_leading_minus (cell_str (Some ''5-'')))) = Some 5
   \<and> process_row [Some ''01/05/2024'', Some ''Refund'', Some ''5-''] = None"
  by (simp add: row_eval keep_leading_minus_def drop_commas_def)

text \<open>
  C2, amended: the amount of every emitted transaction is the number parsed from its
  amount cell after every character that is not a digit, a period, a comma or a minus
  sign (at any position) has been removed, and then the commas; a row for which that
  parse fails is dropped, and a row of at least three cells that is no header or blank
  row and for which it succeeds is emitted with that amount. The amount cell
  \<open>$1,234.56\<close> gives 1234.56 and \<open>-$50.00\<close> gives -50.
\<close>

theorem amount_normalization:
  "(process_row row = Some t \<longrightarrow>
      py_float (drop_commas (keep_all_minus (cell_str (row ! 2)))) = Some (Amount t))
   \<and> (non_numeric row \<longrightarrow> process_row row = None)
   \<and> (3 \<le> length row \<and> \<not> header_like row \<and> lower (cell_str (row ! 2)) \<noteq> ''amount''
        \<and> cell_str (row ! 2) \<noteq> []
        \<and> py_float (drop_commas (keep_all_minus (cell_str (row ! 2)))) = Some v \<longrightarrow>
      process_row row =
        Some \<lparr>Date = cell_str (row ! 0), Description = cell_str (row ! 1), Amount = v\<rparr>)
   \<and> process_row [Some ''01/05/2024'', Some ''Coffee Shop'', Some ''$1,234.56''] =
        Some \<lparr>Date = ''01/05/2024'', Description = ''Coffee Shop'', Amount = 1234.56\<rparr>
   \<and> process_row [Some ''01/07/2024'', Some ''Refund'', Some ''-$50.00''] =
        Some \<lparr>Date = ''01/07/2024'', Description = ''Refund'', Amount = - 50\<rparr>"
proof (intro conjI impI)
  assume "process_row row = Some t"
  then show "py_float (drop_commas (keep_all_minus (cell_str (row ! 2)))) = Some (Amount t)"
    by (rule process_row_Some)
next
  assume "non_numeric row"
  then show "process_row row = None" by (rule non_numeric_dropped)
next
  assume "3 \<le> length row \<and> \<not> header_like row \<and> lower (cell_str (row ! 2)) \<noteq> ''amount''
        \<and> cell_str (row ! 2) \<noteq> []
        \<and> py_float (drop_commas (keep_all_minus (cell_str (row ! 2)))) = Some v"
  then show "process_row row =
        Some \<lparr>Date = cell_str (row ! 0), Description = cell_str (row ! 1), Amount = v\<rparr>"
    by (simp add: process_row_accepts)
next
  show "process_row [Some ''01/05/2024'', Some ''Coffee Shop'', Some ''$1,234.56''] =
        Some \<lparr>Date = ''01/05/2024'', Description = ''Coffee Shop'', Amount = 1234.56\<rparr>"
    by (simp add: row_eval)
next
  show "process_row [Some ''01/07/2024'', Some ''Refund'', Some ''-$50.00''] =
        Some \<lparr>Date = ''01/07/2024'', Description = ''Refund'', Amount = - 50\<rparr>"
    by (simp add: row_eval)
qed

theorem amount_normalization_witness:
  "process_row [Some ''01/10/2024'', Some ''Grocery'', Some ''$88.20'']
     = Some \<lparr>Date = ''01/10/2024'', Description = ''Grocery'', Amount = 88.2\<rparr>
   \<and> py_float (drop_commas (keep_all_minus (cell_str (Some ''$88.20''))))
     = Some (Amount \<lparr>Date = ''01/10/2024'', Description = ''Grocery'', Amount = 88.2\<rparr>)
   \<and> 3 \<le> length [Some ''01/10/2024'', Some ''Grocery'', Some ''$88.20'']
   \<and> \<not> header_like [Some ''01/10/2024'', Some ''Grocery'', Some ''$88.20'']
   \<and> lower (cell_str (Some ''$88.20'')) \<noteq> ''amount''
   \<and> cell_str (Some ''$88.20'') \<noteq> []
   \<and> non_numeric [Some ''01/11/2024'', Some ''Pending'', Some ''N/A'']
   \<and> process_row [Some ''01/11/2024'', Some ''Pending'', Some ''N/A''] = None"
  using amount_normalization
          [of "[Some ''01/10/2024'', Some ''Grocery'', Some ''$88.20'']"
              "\<lparr>Date = ''01/10/2024'', Description = ''Grocery'', Amount = 88.2\<rparr>" "88.2"]
        amount_normalization
          [of "[Some ''01/11/2024'', Some ''Pending'', Some ''N/A'']"]
  by (simp add: row_eval header_like_def non_numeric_def keep_all_minus_def drop_commas_def)

text \<open>
  C10, as stated: the page texts are joined with newline separators. A document of one
  page whose text is \<open>a\<close> has the joined text \<open>a\<close>; the code returns \<open>a\<close> followed by
  a newline.
\<close>

theorem joined_text_counterexample:
  "extract_text_from_pdf
     (one_file ''statement.pdf'' [\<lparr>extract_text = Some ''a'', extract_tables = []\<rparr>])
     ''statement.pdf''
   \<noteq> Inr (joined_text [\<lparr>extract_text = Some ''a'', extract_tables = []\<rparr>])"
  by (simp add: extract_text_from_pdf_def one_file_def joined_text_def page_text_def)

text \<open>
  C10, amended: for every document that opens, the extraction of the full text returns
  the non-empty page texts in page order, each followed by a newline; pages without text
  are skipped, and a document with no page or no text gives the empty string.
\<close>

theorem full_text_terminated:
  assumes "fs file_path = Some pdf"
  shows "extract_text_from_pdf fs file_path = Inr (terminated_text pdf)"
  using assms by (simp add: extract_text_from_pdf_def text_loop_eq)

theorem full_text_terminated_witness:
  "one_file ''statement.pdf''
     [\<lparr>extract_text = Some ''ab'', extract_tables = []\<rparr>,
      \<lparr>extract_text = None, extract_tables = []\<rparr>,
      \<lparr>extract_text = Some '''', extract_tables = []\<rparr>,
      \<lparr>extract_text = Some ''c'', extract_tables = []\<rparr>] ''statement.pdf''
     = Some [\<lparr>extract_text = Some ''ab'', extract_tables = []\<rparr>,
      \<lparr>extract_text = None, extract_tables = []\<rparr>,
      \<lparr>extract_text = Some '''', extract_tables = []\<rparr>,
      \<lparr>extract_text = Some ''c'', extract_tables = []\<rparr>]
   \<and> extract_text_from_pdf
       (one_file ''statement.pdf''
         [\<lparr>extract_text = Some ''ab'', extract_tables = []\<rparr>,
          \<lparr>extract_text = None, extract_tables = []\<rparr>,
          \<lparr>extract_text = Some '''', extract_tables = []\<rparr>,
          \<lparr>extract_text = Some ''c'', extract_tables = []\<rparr>]) ''statement.pdf''
     = Inr [CHR ''a'', CHR ''b'', CHR 0x0A, CHR ''c'', CHR 0x0A]"
proof -
  have h: "one_file ''statement.pdf''
     [\<lparr>extract_text = Some ''ab'', extract_tables = []\<rparr>,
      \<lparr>extract_text = None, extract_tables = []\<rparr>,
      \<lparr>extract_text = Some '''', extract_tables = []\<rparr>,
      \<lparr>extract_text = Some ''c'', extract_tables = []\<rparr>] ''statement.pdf''
     = Some [\<lparr>extract_text = Some ''ab'', extract_tables = []\<rparr>,
      \<lparr>extract_text = None, extract_tables = []\<rparr>,
      \<lparr>extract_text = Some '''', extract_tables = []\<rparr>,
      \<lparr>extract_text = Some ''c'', extract_tables = []\<rparr>]"
    by (simp add: one_file_def)
  show ?thesis
    using h full_text_terminated
      [of "one_file ''statement.pdf''
         [\<lparr>extract_text = Some ''ab'', extract_tables = []\<rparr>,
          \<lparr>extract_text = None, extract_tables = []\<rparr>,
          \<lparr>extract_text = Some '''', extract_tables = []\<rparr>,
          \<lparr>extract_text = Some ''c'', extract_tables = []\<rparr>]" "''statement.pdf''", OF h]
    by (simp add: terminated_text_def page_text_def)
qed

text \<open>
  C9. The result of \<open>parse\<close> is determined by the text extracted from the document and
  by the tables extracted from its page 0 (or the failure to extract them): two calls
  that see the same of both return equal results, be it the same error or structurally
  equal statement data.
\<close>

theorem parse_deterministic:
  assumes "extract_text_from_pdf fs1 path1 = extract_text_from_pdf fs2 path2"
    and "first_page_tables fs1 path1 = first_page_tables fs2 path2"
  shows "parse fs1 path1 = parse fs2 path2"
  by (simp only: parse_def extract_transactions_eq assms)

theorem parse_deterministic_witness:
  "extract_text_from_pdf
     (one_file ''a.pdf''
        [\<lparr>extract_text = Some ''****9999'',
          extract_tables = [[[Some ''Date'', Some ''Description'', Some ''Amount''],
                             [Some ''01/05/2024'', Some ''Coffee Shop'', Some ''$4.50'']]]\<rparr>])
     ''a.pdf''
   = extract_text_from_pdf
     (one_file ''b.pdf''
        [\<lparr>extract_text = Some ''****9999'',
          extract_tables = [[[Some ''Date'', Some ''Description'', Some ''Amount''],
                             [Some ''01/05/2024'', Some ''Coffee Shop'', Some ''$4.50'']]]\<rparr>,
         \<lparr>extract_text = None, extract_tables = [[[Some ''x'']]]\<rparr>])
     ''b.pdf''
   \<and> first_page_tables
     (one_file ''a.pdf''
        [\<lparr>extract_text = Some ''****9999'',
          extract_tables = [[[Some ''Date'', Some ''Description'', Some ''Amount''],
                             [Some ''01/05/2024'', Some ''Coffee Shop'', Some ''$4.50'']]]\<rparr>])
     ''a.pdf''
   = first_page_tables
     (one_file ''b.pdf''
        [\<lparr>extract_text = Some ''****9999'',
          extract_tables = [[[Some ''Date'', Some ''Description'', Some ''Amount''],
                             [Some ''01/05/2024'', Some ''Coffee Shop'', Some ''$4.50'']]]\<rparr>,
         \<lparr>extract_text = None, extract_tables = [[[Some ''x'']]]\<rparr>])
     ''b.pdf''
   \<and> parse
     (one_file ''a.pdf''
        [\<lparr>extract_text = Some ''****9999'',
          extract_tables = [[[Some ''Date'', Some ''Description'', Some ''Amount''],
                             [Some ''01/05/2024'', Some ''Coffee Shop'', Some ''$4.50'']]]\<rparr>])
     ''a.pdf''
   = parse
     (one_file ''b.pdf''
        [\<lparr>extract_text = Some ''****9999'',
          extract_tables = [[[Some ''Date'', Some ''Description'', Some ''Amount''],
                             [Some ''01/05/2024'', Some ''Coffee Shop'', Some ''$4.50'']]]\<rparr>,
         \<lparr>extract_text = None, extract_tables = [[[Some ''x'']]]\<rparr>])
     ''b.pdf''"
proof -
  let ?fa = "one_file ''a.pdf''
        [\<lparr>extract_text = Some ''****9999'',
          extract_tables = [[[Some ''Date'', Some ''Description'', Some ''Amount''],
                             [Some ''01/05/2024'', Some ''Coffee Shop'', Some ''$4.50'']]]\<rparr>]"
  let ?fb = "one_file ''b.pdf''
        [\<lparr>extract_text = Some ''****9999'',
          extract_tables = [[[Some ''Date'', Some ''Description'', Some ''Amount''],
                             [Some ''01/05/2024'', Some ''Coffee Shop'', Some ''$4.50'']]]\<rparr>,
         \<lparr>extract_text = None, extract_tables = [[[Some ''x'']]]\<rparr>]"
  have t: "extract_text_from_pdf ?fa ''a.pdf'' = extract_text_from_pdf ?fb ''b.pdf''"
    by (simp add: extract_text_from_pdf_def one_file_def)
  have f: "first_page_tables ?fa ''a.pdf'' = first_page_tables ?fb ''b.pdf''"
    by (simp add: first_page_tables_def one_file_def)
  from t f parse_deterministic [of ?fa "''a.pdf''" ?fb "''b.pdf''", OF t f]
  show ?thesis by blast
qed

text \<open>
  C8. When the document has a page 0, \<open>parse\<close> returns statement data whose
  transactions are the accepted rows in scan order (tables in order, the rows of each
  table in order, nothing removed as a duplicate and nothing sorted): the list is the
  image of the scanned rows under the row check. Every transaction in it has a
  non-empty date, a non-empty description and the amount parsed from the amount cell of
  its row.
\<close>

theorem transactions_valid_in_scan_order:
  assumes "fs file_path = Some (first_page # rest)"
  shows "\<exists>sd. parse fs file_path = Inr sd
          \<and> transactions sd =
              List.map_filter process_row (scanned_rows (extract_tables first_page))
          \<and> (\<forall>t\<in>set (transactions sd).
                Date t \<noteq> [] \<and> Description t \<noteq> []
                \<and> (\<exists>row\<in>set (scanned_rows (extract_tables first_page)).
                      process_row row = Some t
                      \<and> py_float (drop_commas (keep_all_minus (cell_str (row ! 2))))
                          = Some (Amount t)))"
proof -
  from parse_Inr [of fs file_path first_page rest] assms obtain sd where
    sd: "parse fs file_path = Inr sd"
        "transactions sd =
           List.map_filter process_row (scanned_rows (extract_tables first_page))"
    by blast
  have "Date t \<noteq> [] \<and> Description t \<noteq> []
        \<and> (\<exists>row\<in>set (scanned_rows (extract_tables first_page)).
              process_row row = Some t
              \<and> py_float (drop_commas (keep_all_minus (cell_str (row ! 2)))) = Some (Amount t))"
    if "t \<in> set (transactions sd)" for t
  proof -
    from that sd(2) obtain row where
      row: "row \<in> set (scanned_rows (extract_tables first_page))" "process_row row = Some t"
      by (auto simp: set_map_filter)
    from process_row_Some [OF row(2)] row show ?thesis by blast
  qed
  with sd show ?thesis by blast
qed

theorem transactions_valid_in_scan_order_witness:
  "one_file ''statement.pdf''
     [\<lparr>extract_text = None,
       extract_tables =
         [[[Some ''Date'', Some ''Description'', Some ''Amount''],
           [Some ''01/10/2024'', Some ''Grocery'', Some ''$88.20''],
           [Some ''01/05/2024'', Some ''Coffee Shop'', Some ''$4.50'']],
          [[Some ''01/12/2024'', Some ''Lone row'', Some ''$1.00'']],
          [[Some ''01/10/2024'', Some ''Grocery'', Some ''$88.20''],
           [None, Some ''Total'', Some ''$92.70'']]]\<rparr>] ''statement.pdf''
   = Some [\<lparr>extract_text = None,
       extract_tables =
         [[[Some ''Date'', Some ''Description'', Some ''Amount''],
           [Some ''01/10/2024'', Some ''Grocery'', Some ''$88.20''],
           [Some ''01/05/2024'', Some ''Coffee Shop'', Some ''$4.50'']],
          [[Some ''01/12/2024'', Some ''Lone row'', Some ''$1.00'']],
          [[Some ''01/10/2024'', Some ''Grocery'', Some ''$88.20''],
           [None, Some ''Total'', Some ''$92.70'']]]\<rparr>]
   \<and> map_sum id transactions
       (parse
         (one_file ''statement.pdf''
           [\<lparr>extract_text = None,
             extract_tables =
               [[[Some ''Date'', Some ''Description'', Some ''Amount''],
                 [Some ''01/10/2024'', Some ''Grocery'', Some ''$88.20''],
                 [Some ''01/05/2024'', Some ''Coffee Shop'', Some ''$4.50'']],
                [[Some ''01/12/2024'', Some ''Lone row'', Some ''$1.00'']],
                [[Some ''01/10/2024'', Some ''Grocery'', Some ''$88.20''],
                 [None, Some ''Total'', Some ''$92.70'']]]\<rparr>]) ''statement.pdf'')
     = Inr [\<lparr>Date = ''01/10/2024'', Description = ''Grocery'', Amount = 88.2\<rparr>,
            \<lparr>Date = ''01/05/2024'', Description = ''Coffee Shop'', Amount = 4.5\<rparr>,
            \<lparr>Date = ''01/10/2024'', Description = ''Grocery'', Amount = 88.2\<rparr>]"
proof -
  let ?pg = "\<lparr>extract_text = None,
       extract_tables =
         [[[Some ''Date'', Some ''Description'', Some ''Amount''],
           [Some ''01/10/2024'', Some ''Grocery'', Some ''$88.20''],
           [Some ''01/05/2024'', Some ''Coffee Shop'', Some ''$4.50'']],
          [[Some ''01/12/2024'', Some ''Lone row'', Some ''$1.00'']],
          [[Some ''01/10/2024'', Some ''Grocery'', Some ''$88.20''],
           [None, Some ''Total'', Some ''$92.70'']]]\<rparr>"
  have h: "one_file ''statement.pdf'' [?pg] ''statement.pdf'' = Some [?pg]"
    by (simp add: one_file_def)
  from transactions_valid_in_scan_order
         [of "one_file ''statement.pdf'' [?pg]" "''statement.pdf''" ?pg "[]", OF h]
  obtain sd where
    sd: "parse (one_file ''statement.pdf'' [?pg]) ''statement.pdf'' = Inr sd"
        "transactions sd = List.map_filter process_row (scanned_rows (extract_tables ?pg))"
    by blast
  have "List.map_filter process_row (scanned_rows (extract_tables ?pg))
        = [\<lparr>Date = ''01/10/2024'', Description = ''Grocery'', Amount = 88.2\<rparr>,
           \<lparr>Date = ''01/05/2024'', Description = ''Coffee Shop'', Amount = 4.5\<rparr>,
           \<lparr>Date = ''01/10/2024'', Description = ''Grocery'', Amount = 88.2\<rparr>]"
    by (simp add: scanned_rows_def row_eval)
  with sd h show ?thesis by simp
qed

text \<open>
  C5. A row whose trimmed date cell is, in lower case, \<open>date\<close>, \<open>transaction date\<close> or
  empty, or whose trimmed description cell is \<open>description\<close>, \<open>merchant\<close> or empty, is
  dropped by the row check; no transaction that \<open>parse\<close> returns has such a date or
  description, and each stems from a scanned row that is no such row. The rows
  \<open>[Date, Description, Amount]\<close> and \<open>[DATE, desc, ]\<close> are dropped.
\<close>

theorem header_rows_suppressed:
  "(header_like row \<longrightarrow> process_row row = None)
   \<and> (fs file_path = Some (first_page # rest) \<longrightarrow>
        (\<exists>sd. parse fs file_path = Inr sd
           \<and> (\<forall>t\<in>set (transactions sd).
                 lower (Date t) \<notin> {''date'', ''transaction date'', ''''}
                 \<and> lower (Description t) \<notin> {''description'', ''merchant'', ''''}
                 \<and> (\<exists>r\<in>set (scanned_rows (extract_tables first_page)).
                       \<not> header_like r \<and> process_row r = Some t))))
   \<and> process_row [Some ''Date'', Some ''Description'', Some ''Amount''] = None
   \<and> process_row [Some ''DATE'', Some ''desc'', Some ''''] = None"
proof (intro conjI impI)
  assume "header_like row"
  then show "process_row row = None"
    by (auto simp: process_row_def header_like_def Let_def)
next
  assume fs: "fs file_path = Some (first_page # rest)"
  from parse_Inr [of fs file_path first_page rest] fs obtain sd where
    sd: "parse fs file_path = Inr sd"
        "transactions sd =
           List.map_filter process_row (scanned_rows (extract_tables first_page))"
    by blast
  have "lower (Date t) \<notin> {''date'', ''transaction date'', ''''}
        \<and> lower (Description t) \<notin> {''description'', ''merchant'', ''''}
        \<and> (\<exists>r\<in>set (scanned_rows (extract_tables first_page)).
              \<not> header_like r \<and> process_row r = Some t)"
    if "t \<in> set (transactions sd)" for t
  proof -
    from that sd(2) obtain r where
      r: "r \<in> set (scanned_rows (extract_tables first_page))" "process_row r = Some t"
      by (auto simp: set_map_filter)
    from process_row_Some(2,3,4) [OF r(2)] r show ?thesis
      unfolding header_like_def by auto
  qed
  with sd show "\<exists>sd. parse fs file_path = Inr sd
           \<and> (\<forall>t\<in>set (transactions sd).
                 lower (Date t) \<notin> {''date'', ''transaction date'', ''''}
                 \<and> lower (Description t) \<notin> {''description'', ''merchant'', ''''}
                 \<and> (\<exists>r\<in>set (scanned_rows (extract_tables first_page)).
                       \<not> header_like r \<and> process_row r = Some t))"
    by blast
next
  show "process_row [Some ''Date'', Some ''Description'', Some ''Amount''] = None"
    by (simp add: row_eval)
next
  show "process_row [Some ''DATE'', Some ''desc'', Some ''''] = None"
    by (simp add: row_eval)
qed

theorem header_rows_suppressed_witness:
  "header_like [Some '' Transaction Date'', Some ''Shop'', Some ''$2.00'']
   \<and> process_row [Some '' Transaction Date'', Some ''Shop'', Some ''$2.00''] = None
   \<and> one_file ''statement.pdf''
       [\<lparr>extract_text = None,
         extract_tables =
           [[[Some ''01/05/2024'', Some ''Coffee Shop'', Some ''$4.50''],
             [Some ''Date'', Some ''Description'', Some ''Amount''],
             [Some ''01/06/2024'', Some ''MERCHANT '', Some ''$9.00'']]]\<rparr>] ''statement.pdf''
     = Some [\<lparr>extract_text = None,
         extract_tables =
           [[[Some ''01/05/2024'', Some ''Coffee Shop'', Some ''$4.50''],
             [Some ''Date'', Some ''Description'', Some ''Amount''],
             [Some ''01/06/2024'', Some ''MERCHANT '', Some ''$9.00'']]]\<rparr>]
   \<and> map_sum id transactions
       (parse
         (one_file ''statement.pdf''
           [\<lparr>extract_text = None,
             extract_tables =
               [[[Some ''01/05/2024'', Some ''Coffee Shop'', Some ''$4.50''],
                 [Some ''Date'', Some ''Description'', Some ''Amount''],
                 [Some ''01/06/2024'', Some ''MERCHANT '', Some ''$9.00'']]]\<rparr>])
         ''statement.pdf'')
     = Inr [\<lparr>Date = ''01/05/2024'', Description = ''Coffee Shop'', Amount = 4.5\<rparr>]"
proof -
  let ?pg = "\<lparr>extract_text = None,
         extract_tables =
           [[[Some ''01/05/2024'', Some ''Coffee Shop'', Some ''$4.50''],
             [Some ''Date'', Some ''Description'', Some ''Amount''],
             [Some ''01/06/2024'', Some ''MERCHANT '', Some ''$9.00'']]]\<rparr>"
  let ?hd = "[Some '' Transaction Date'', Some ''Shop'', Some ''$2.00'']"
  have h: "one_file ''statement.pdf'' [?pg] ''statement.pdf'' = Some [?pg]"
    by (simp add: one_file_def)
  have hl: "header_like ?hd"
    by (simp add: header_like_def row_eval)
  note inst = header_rows_suppressed
         [of ?hd "one_file ''statement.pdf'' [?pg]" "''statement.pdf''" ?pg "[]"]
  from inst hl have dropped: "process_row ?hd = None" by blast
  have "map_sum id transactions (parse (one_file ''statement.pdf'' [?pg]) ''statement.pdf'')
        = Inr [\<lparr>Date = ''01/05/2024'', Description = ''Coffee Shop'', Amount = 4.5\<rparr>]"
    by (simp add: parse_def extract_text_from_pdf_def extract_transactions_eq
          first_page_tables_def one_file_def scanned_rows_def row_eval)
  with h hl dropped show ?thesis by blast
qed

text \<open>
  C6, as stated: the other rows fare as if the bad row were not present. In a table of
  two rows, the first with the amount cell \<open>N/A\<close>, the second row is emitted; without
  the first row the table has one row, is skipped whole, and the same second row is not
  emitted.
\<close>

theorem removed_row_counterexample:
  "non_numeric [Some ''01/05/2024'', Some ''Pending'', Some ''N/A'']
   \<and> extract_transactions
       (one_file ''statement.pdf''
         [\<lparr>extract_text = None,
           extract_tables = [[[Some ''01/05/2024'', Some ''Pending'', Some ''N/A''],
                              [Some ''01/06/2024'', Some ''Tea'', Some ''$4.50'']]]\<rparr>])
       ''statement.pdf''
     = Inr [\<lparr>Date = ''01/06/2024'', Description = ''Tea'', Amount = 4.5\<rparr>]
   \<and> extract_transactions
       (one_file ''statement.pdf''
         [\<lparr>extract_text = None,
           extract_tables = [[[Some ''01/06/2024'', Some ''Tea'', Some ''$4.50'']]]\<rparr>])
       ''statement.pdf''
     = Inr []"
  by (simp add: extract_transactions_def one_file_def rows_loop_eq
        non_numeric_def keep_all_minus_def drop_commas_def row_eval)

text \<open>
  C6, amended: a row whose third cell is non-numeric after normalization yields no
  transaction, and the transactions extracted are those extracted from the same tables
  with that row removed, provided the table it stands in keeps at least two rows
  without it (a table of fewer than two rows is skipped whole).
\<close>

theorem row_isolation:
  assumes "fs file_path = Some (first_page # rest)"
    and "extract_tables first_page = pre @ [rows_a @ [bad] @ rows_b] @ post"
    and "non_numeric bad"
    and "2 \<le> length (rows_a @ rows_b)"
    and "fs' file_path =
           Some (first_page\<lparr>extract_tables := pre @ [rows_a @ rows_b] @ post\<rparr> # rest)"
  shows "process_row bad = None
         \<and> extract_transactions fs file_path = extract_transactions fs' file_path"
proof -
  have bad: "process_row bad = None"
    using assms(3) by (rule non_numeric_dropped)
  have "List.map_filter process_row (scanned_rows (pre @ [rows_a @ [bad] @ rows_b] @ post))
        = List.map_filter process_row (scanned_rows (pre @ [rows_a @ rows_b] @ post))"
    using assms(4) bad
    by (simp add: scanned_rows_def map_filter_append)
  with assms(1,2,5) bad show ?thesis
    by (simp add: extract_transactions_eq first_page_tables_def)
qed

theorem row_isolation_witness:
  "non_numeric [Some ''01/05/2024'', Some ''Pending'', Some ''N/A'']
   \<and> process_row [Some ''01/05/2024'', Some ''Pending'', Some ''N/A''] = None
   \<and> extract_transactions
       (one_file ''statement.pdf''
         [\<lparr>extract_text = None,
           extract_tables = [[[Some ''01/04/2024'', Some ''Book'', Some ''$12.00''],
                              [Some ''01/05/2024'', Some ''Pending'', Some ''N/A''],
                              [Some ''01/06/2024'', Some ''Tea'', Some ''$4.50'']]]\<rparr>])
       ''statement.pdf''
     = extract_transactions
       (one_file ''statement.pdf''
         [\<lparr>extract_text = None,
           extract_tables = [[[Some ''01/04/2024'', Some ''Book'', Some ''$12.00''],
                              [Some ''01/06/2024'', Some ''Tea'', Some ''$4.50'']]]\<rparr>])
       ''statement.pdf''"
proof -
  let ?bad = "[Some ''01/05/2024'', Some ''Pending'', Some ''N/A'']"
  let ?a = "[[Some ''01/04/2024'', Some ''Book'', Some ''$12.00'']]"
  let ?b = "[[Some ''01/06/2024'', Some ''Tea'', Some ''$4.50'']]"
  let ?pg = "\<lparr>extract_text = None, extract_tables = [?a @ [?bad] @ ?b]\<rparr>"
  let ?pg' = "\<lparr>extract_text = None, extract_tables = [?a @ ?b]\<rparr>"
  have h1: "one_file ''statement.pdf'' [?pg] ''statement.pdf'' = Some (?pg # [])"
    by (simp add: one_file_def)
  have h2: "extract_tables ?pg = [] @ [?a @ [?bad] @ ?b] @ []"
    by simp
  have h3: "non_numeric ?bad"
    by (simp add: non_numeric_def keep_all_minus_def drop_commas_def row_eval)
  have h4: "2 \<le> length (?a @ ?b)"
    by simp
  have h5: "one_file ''statement.pdf'' [?pg'] ''statement.pdf''
              = Some (?pg\<lparr>extract_tables := [] @ [?a @ ?b] @ []\<rparr> # [])"
    by (simp add: one_file_def)
  from row_isolation
         [of "one_file ''statement.pdf'' [?pg]" "''statement.pdf''" ?pg "[]" "[]" ?a ?bad ?b
             "[]" "one_file ''statement.pdf'' [?pg']", OF h1 h2 h3 h4 h5] h3
  show ?thesis by simp
qed

text \<open>
  C3, as stated: every text that contains \<open>****5678\<close> and \<open>ending in 1234\<close> gives
  \<open>5678\<close>, and every text that contains \<open>ending in 1234\<close> and no asterisk-prefixed
  digits gives \<open>1234\<close>. The search takes the leftmost match of a pattern: a text with
  \<open>****0000\<close> before \<open>****5678\<close> gives \<open>0000\<close>, and a text with \<open>ending in 9999\<close>
  before \<open>ending in 1234\<close> gives \<open>9999\<close>.
\<close>

theorem first_occurrence_counterexample:
  "contains ''****5678'' ''****0000 ****5678 ending in 1234''
   \<and> contains ''ending in 1234'' ''****0000 ****5678 ending in 1234''
   \<and> extract_card_last_4 ''****0000 ****5678 ending in 1234'' = ''0000''
   \<and> contains ''ending in 1234'' ''ending in 9999, ending in 1234''
   \<and> re_search asterisk_pattern ''ending in 9999, ending in 1234'' True = None
   \<and> extract_card_last_4 ''ending in 9999, ending in 1234'' = ''9999''"
  by (simp add: re_eval)

text \<open>
  C3, amended: the four patterns are tried in the order asterisk prefix, \<open>ending in\<close>,
  \<open>card ending\<close>, \<open>account ending\<close>, without regard to letter case; the result is the
  captured group of the leftmost match of the first pattern that matches, and the empty
  string if none matches. A text in which \<open>****5678\<close> occurs with no match of the
  asterisk pattern before it gives \<open>5678\<close>, whatever else it contains before or after
  (\<open>ending in 1234\<close> in particular). A text without a match of the asterisk pattern in
  which \<open>ending in 1234\<close> occurs, in any letter case, with no match of the
  \<open>ending in\<close> pattern before it gives \<open>1234\<close>.
\<close>

theorem card_last_4_precedence:
  "extract_card_last_4 text =
     (case re_search asterisk_pattern text True of Some m \<Rightarrow> group m 1
      | None \<Rightarrow> (case re_search ending_in_pattern text True of Some m \<Rightarrow> group m 1
      | None \<Rightarrow> (case re_search card_ending_pattern text True of Some m \<Rightarrow> group m 1
      | None \<Rightarrow> (case re_search account_ending_pattern text True of Some m \<Rightarrow> group m 1
      | None \<Rightarrow> []))))
   \<and> (re_search asterisk_pattern pre True = None \<longrightarrow>
        extract_card_last_4 (pre @ ''****5678'' @ post) = ''5678'')
   \<and> (re_search asterisk_pattern (pre @ u @ ''1234'' @ post) True = None
        \<and> re_search ending_in_pattern pre True = None \<and> lower u = ''ending in '' \<longrightarrow>
        extract_card_last_4 (pre @ u @ ''1234'' @ post) = ''1234'')"
proof (intro conjI impI)
  show "extract_card_last_4 text =
     (case re_search asterisk_pattern text True of Some m \<Rightarrow> group m 1
      | None \<Rightarrow> (case re_search ending_in_pattern text True of Some m \<Rightarrow> group m 1
      | None \<Rightarrow> (case re_search card_ending_pattern text True of Some m \<Rightarrow> group m 1
      | None \<Rightarrow> (case re_search account_ending_pattern text True of Some m \<Rightarrow> group m 1
      | None \<Rightarrow> []))))"
    by (simp add: extract_card_last_4_def card_patterns_def split: option.split)
next
  assume "re_search asterisk_pattern pre True = None"
  from asterisk_first [OF this, of "''5678''" post]
  have "re_search asterisk_pattern (pre @ ''****5678'' @ post) True = Some [''5678'']"
    by (simp add: is_digit_def)
  then show "extract_card_last_4 (pre @ ''****5678'' @ post) = ''5678''"
    by (simp add: extract_card_last_4_def card_patterns_def group_def)
next
  assume a: "re_search asterisk_pattern (pre @ u @ ''1234'' @ post) True = None
        \<and> re_search ending_in_pattern pre True = None \<and> lower u = ''ending in ''"
  then have "re_search ending_in_pattern pre True = None" and "lower u = ''ending in ''"
    by blast+
  from ending_in_first [OF this, of "''1234''" post]
  have "re_search ending_in_pattern (pre @ u @ ''1234'' @ post) True = Some [''1234'']"
    by (simp add: is_digit_def)
  with a show "extract_card_last_4 (pre @ u @ ''1234'' @ post) = ''1234''"
    by (simp add: extract_card_last_4_def card_patterns_def group_def)
qed

theorem card_last_4_precedence_witness:
  "re_search asterisk_pattern ''Card ending in 1234, no. '' True = None
   \<and> extract_card_last_4 (''Card ending in 1234, no. '' @ ''****5678'' @ ''.'') = ''5678''
   \<and> re_search asterisk_pattern (''Account '' @ ''Ending In '' @ ''1234'' @ '' ****'') True = None
   \<and> re_search ending_in_pattern ''Account '' True = None
   \<and> lower ''Ending In '' = ''ending in ''
   \<and> extract_card_last_4 (''Account '' @ ''Ending In '' @ ''1234'' @ '' ****'') = ''1234''"
proof -
  have h1: "re_search asterisk_pattern ''Card ending in 1234, no. '' True = None"
    by (simp add: re_eval)
  have h2: "re_search asterisk_pattern (''Account '' @ ''Ending In '' @ ''1234'' @ '' ****'') True = None"
    by (simp add: re_eval)
  have h3: "re_search ending_in_pattern ''Account '' True = None"
    by (simp add: re_eval)
  have h4: "lower ''Ending In '' = ''ending in ''"
    by (simp add: lower_def lower_char_def)
  from card_last_4_precedence [of "''Card ending in 1234, no. ''" "''Card ending in 1234, no. ''" "''.''" "[]"] h1
  have c1: "extract_card_last_4 (''Card ending in 1234, no. '' @ ''****5678'' @ ''.'') = ''5678''"
    by blast
  from card_last_4_precedence [of "[]" "''Account ''" "'' ****''" "''Ending In ''"] h2 h3 h4
  have c2: "extract_card_last_4 (''Account '' @ ''Ending In '' @ ''1234'' @ '' ****'') = ''1234''"
    by blast
  from h1 h2 h3 h4 c1 c2 show ?thesis by blast
qed

text \<open>
  C4, as stated: the balance is 0 exactly when no pattern both matches and parses. On
  the text \<open>Total Balance: $0.00\<close> the first pattern matches and its amount parses, to
  0, which is the result.
\<close>

theorem zero_balance_counterexample:
  "attempt total_balance_pattern ''Total Balance: $0.00'' = Some 0
   \<and> extract_total_balance ''Total Balance: $0.00'' = 0"
  by (simp add: re_eval)

text \<open>
  C4, amended: the balance is the amount of the first pattern, in the order total
  balance, current balance, balance, that both matches and whose captured text parses
  after the removal of the commas; a pattern that matches but whose captured text does
  not parse is passed over for the next one. The result is 0 whenever no pattern both
  matches and parses, and in particular for every text in which the word \<open>balance\<close>
  does not occur in any letter case. The function has no failing branch: the only
  exception of its body, the \<^verbatim>\<open>ValueError\<close> of the conversion, is caught.
\<close>

theorem total_balance_fallback:
  "extract_total_balance text =
     (case attempt total_balance_pattern text of Some v \<Rightarrow> v
      | None \<Rightarrow> (case attempt current_balance_pattern text of Some v \<Rightarrow> v
      | None \<Rightarrow> (case attempt balance_pattern text of Some v \<Rightarrow> v
      | None \<Rightarrow> 0)))
   \<and> ((\<forall>p\<in>set balance_patterns. attempt p text = None) \<longrightarrow> extract_total_balance text = 0)
   \<and> (\<not> contains ''balance'' (lower text) \<longrightarrow> extract_total_balance text = 0)"
proof (intro conjI impI)
  show "extract_total_balance text =
     (case attempt total_balance_pattern text of Some v \<Rightarrow> v
      | None \<Rightarrow> (case attempt current_balance_pattern text of Some v \<Rightarrow> v
      | None \<Rightarrow> (case attempt balance_pattern text of Some v \<Rightarrow> v
      | None \<Rightarrow> 0)))"
    by (rule extract_total_balance_eq)
next
  assume "\<forall>p\<in>set balance_patterns. attempt p text = None"
  then show "extract_total_balance text = 0"
    by (simp add: extract_total_balance_eq balance_patterns_def)
next
  assume "\<not> contains ''balance'' (lower text)"
  then have "\<forall>p\<in>set balance_patterns. attempt p text = None"
    by (auto intro: attempt_no_match no_balance)
  then show "extract_total_balance text = 0"
    by (simp add: extract_total_balance_eq balance_patterns_def)
qed

theorem total_balance_fallback_witness:
  "re_search total_balance_pattern ''total balance: , current balance: 7.5'' True = Some ['','']
   \<and> attempt total_balance_pattern ''total balance: , current balance: 7.5'' = None
   \<and> extract_total_balance ''total balance: , current balance: 7.5'' = 7.5
   \<and> attempt total_balance_pattern ''Balance due soon'' = None
   \<and> attempt current_balance_pattern ''Balance due soon'' = None
   \<and> attempt balance_pattern ''Balance due soon'' = None
   \<and> extract_total_balance ''Balance due soon'' = 0
   \<and> \<not> contains ''balance'' (lower ''No amounts here'')
   \<and> extract_total_balance ''No amounts here'' = 0"
proof -
  have a1: "re_search total_balance_pattern ''total balance: , current balance: 7.5'' True
              = Some ['','']"
    by (simp add: re_eval)
  have a2: "attempt total_balance_pattern ''total balance: , current balance: 7.5'' = None"
    by (simp add: re_eval)
  have a3: "attempt current_balance_pattern ''total balance: , current balance: 7.5'' = Some 7.5"
    by (simp add: re_eval)
  from total_balance_fallback [of "''total balance: , current balance: 7.5''"] a2 a3
  have c1: "extract_total_balance ''total balance: , current balance: 7.5'' = 7.5"
    by simp
  have b: "attempt total_balance_pattern ''Balance due soon'' = None"
      "attempt current_balance_pattern ''Balance due soon'' = None"
      "attempt balance_pattern ''Balance due soon'' = None"
    by (simp_all add: re_eval)
  then have "\<forall>p\<in>set balance_patterns. attempt p ''Balance due soon'' = None"
    by (simp add: balance_patterns_def)
  with total_balance_fallback [of "''Balance due soon''"]
  have c2: "extract_total_balance ''Balance due soon'' = 0"
    by blast
  have n: "\<not> contains ''balance'' (lower ''No amounts here'')"
    by (simp add: lower_def lower_char_def)
  with total_balance_fallback [of "''No amounts here''"]
  have c3: "extract_total_balance ''No amounts here'' = 0"
    by blast
  from a1 a2 c1 b c2 n c3 show ?thesis by blast
qed

text \<open>
  C7. Whenever \<open>parse\<close> returns statement data, its field \<open>card_last_4\<close> is the
  empty string or a string of exactly four digits.
\<close>

theorem card_last_4_shape:
  assumes "parse fs file_path = Inr sd"
  shows "card_last_4 sd = []
         \<or> (length (card_last_4 sd) = 4 \<and> list_all is_digit (card_last_4 sd))"
proof -
  from assms obtain text' where "card_last_4 sd = extract_card_last_4 text'"
    by (auto simp: parse_def split: sum.splits)
  with extract_card_last_4_shape [of text'] show ?thesis by simp
qed

theorem card_last_4_shape_witness:
  "parse (one_file ''statement.pdf''
            [\<lparr>extract_text = Some ''Card ****9999'', extract_tables = []\<rparr>]) ''statement.pdf''
     = Inr \<lparr>issuer = ''Chase'', card_last_4 = ''9999'', billing_cycle = [], due_date = [],
            total_balance = 0, transactions = []\<rparr>
   \<and> length (card_last_4 \<lparr>issuer = ''Chase'', card_last_4 = ''9999'', billing_cycle = [],
             due_date = [], total_balance = 0, transactions = []\<rparr>) = 4
   \<and> list_all is_digit
              (card_last_4 \<lparr>issuer = ''Chase'', card_last_4 = ''9999'', billing_cycle = [],
                 due_date = [], total_balance = 0, transactions = []\<rparr>)"
proof -
  have h: "parse (one_file ''statement.pdf''
            [\<lparr>extract_text = Some ''Card ****9999'', extract_tables = []\<rparr>]) ''statement.pdf''
     = Inr \<lparr>issuer = ''Chase'', card_last_4 = ''9999'', billing_cycle = [], due_date = [],
            total_balance = 0, transactions = []\<rparr>"
    by (simp add: parse_def extract_text_from_pdf_def extract_transactions_def one_file_def
          extract_billing_cycle_def billing_patterns_def period_tail_def
          extract_due_date_def due_patterns_def date_tail_def re_eval)
  from h card_last_4_shape
         [of "one_file ''statement.pdf''
               [\<lparr>extract_text = Some ''Card ****9999'', extract_tables = []\<rparr>]"
             "''statement.pdf''"
             "\<lparr>issuer = ''Chase'', card_last_4 = ''9999'', billing_cycle = [], due_date = [],
               total_balance = 0, transactions = []\<rparr>", OF h]
  show ?thesis by simp
qed

end
